theory Spec2Isabelle
  imports Main "HOL-Library.Word" "HOL-Library.Sublist"
begin

text \<open>
  A verification of \<^verbatim>\<open>main.js\<close>, the program that lists the chapters, the code and the
  images of a book in a remote repository, downloads them, stages code and images in a
  temporary directory, merges the chapters into one document with its image paths
  rewritten, and prints the document to a PDF. The functions of \<^verbatim>\<open>main.js\<close> are
  embedded under their own names; the libraries they call are an environment that
  answers each call.
\<close>

section \<open>JavaScript strings\<close>

text \<open>
  A JavaScript string is a sequence of UTF-16 code units. The regular expressions of
  \<^verbatim>\<open>main.js\<close> carry no \<^verbatim>\<open>u\<close> flag, so they work on code units, and the dot
  excludes the four line terminators: line feed, carriage return, U+2028 and U+2029.
\<close>

type_synonym code_unit = "16 word"
type_synonym js_string = "code_unit list"

definition str :: "string \<Rightarrow> js_string" where
  "str s = map (\<lambda>c. of_nat (of_char c)) s"

definition is_line_terminator :: "code_unit \<Rightarrow> bool" where
  "is_line_terminator c = (c = 0x0A \<or> c = 0x0D \<or> c = 0x2028 \<or> c = 0x2029)"

definition lbracket :: code_unit where
  "lbracket = 0x5B"

definition rbracket :: code_unit where
  "rbracket = 0x5D"

text \<open>\<^verbatim>\<open>name.startsWith(s)\<close> and \<^verbatim>\<open>name.endsWith(s)\<close>.\<close>

definition startsWith :: "js_string \<Rightarrow> js_string \<Rightarrow> bool" where
  "startsWith s search = (take (length search) s = search)"

definition endsWith :: "js_string \<Rightarrow> js_string \<Rightarrow> bool" where
  "endsWith s search =
     (length search \<le> length s \<and> drop (length s - length search) s = search)"

section \<open>The image-reference rewrite of mergeFiles\<close>

text \<open>
  \<^verbatim>\<open>content.replace(/image::(.*?)\[(.*?)\]/g, (match, imagePath, alt) => ...)\<close>

  The matcher is written as the backtracking search the regular expression stands for.
  \<open>lazy_alt\<close> is \<^verbatim>\<open>(.*?)\]\<close>: the lazy group first tries to stop (the next unit
  is the closing bracket), and otherwise takes one more unit, which the dot accepts
  only when it is not a line terminator. \<open>lazy_path\<close> is \<^verbatim>\<open>(.*?)\[(.*?)\]\<close>: when
  the rest of the pattern fails after an opening bracket, the first group backtracks
  and grows over that bracket.
\<close>

fun lazy_alt :: "js_string \<Rightarrow> js_string \<Rightarrow> (js_string \<times> js_string) option" where
  "lazy_alt alt [] = None"
| "lazy_alt alt (c # cs) =
     (if c = rbracket then Some (alt, cs)
      else if is_line_terminator c then None
      else lazy_alt (alt @ [c]) cs)"

fun lazy_path :: "js_string \<Rightarrow> js_string \<Rightarrow> (js_string \<times> js_string \<times> js_string) option" where
  "lazy_path imagePath [] = None"
| "lazy_path imagePath (c # cs) =
     (case (if c = lbracket then lazy_alt [] cs else None) of
        Some (alt, rest) \<Rightarrow> Some (imagePath, alt, rest)
      | None \<Rightarrow>
          if is_line_terminator c then None
          else lazy_path (imagePath @ [c]) cs)"

text \<open>
  One attempt of the whole pattern at the start of \<open>s\<close>: the two capture groups and
  the text after the match.
\<close>

definition image_regex_at :: "js_string \<Rightarrow> (js_string \<times> js_string \<times> js_string) option" where
  "image_regex_at s =
     (if startsWith s (str ''image::'') then lazy_path [] (drop 7 s) else None)"

text \<open>\<^verbatim>\<open>imagePath.replace(/^images\//, '')\<close>: no flag, so at most one match, at index 0.\<close>

definition cleanImagePath :: "js_string \<Rightarrow> js_string" where
  "cleanImagePath imagePath =
     (if startsWith imagePath (str ''images/'') then drop 7 imagePath else imagePath)"

text \<open>The replacer's template literal \<^verbatim>\<open>`image::${cleanImagePath}[${alt}]`\<close>.\<close>

definition replacer :: "js_string \<Rightarrow> js_string \<Rightarrow> js_string" where
  "replacer imagePath alt =
     str ''image::'' @ cleanImagePath imagePath @ [lbracket] @ alt @ [rbracket]"

text \<open>
  The global replace: the scan moves left to right; after a match it resumes right
  after the match (which is never empty), and a code unit at which the pattern does
  not match is copied.
\<close>

function replace_image_refs :: "js_string \<Rightarrow> js_string" where
  "replace_image_refs [] = []"
| "replace_image_refs (c # cs) =
     (case image_regex_at (c # cs) of
        Some (imagePath, alt, rest) \<Rightarrow> replacer imagePath alt @ replace_image_refs rest
      | None \<Rightarrow> c # replace_image_refs cs)"
  by pat_completeness auto
termination
proof (relation "measure length")
  show "wf (measure length)" by simp
next
  fix c :: code_unit and cs :: js_string
  show "(cs, c # cs) \<in> measure length" by simp
next
  fix c cs x2 imagePath y alt rest
  assume m: "image_regex_at (c # cs) = Some x2" and x2: "(imagePath, y) = x2" "(alt, rest) = y"
  have alt_shorter: "lazy_alt a s = Some (a', r) \<Longrightarrow> length r < length s" for a s a' r
    by (induction a s rule: lazy_alt.induct) (auto split: if_splits)
  have path_shorter: "lazy_path p s = Some (p', a', r) \<Longrightarrow> length r < length s" for p s p' a' r
  proof (induction p s rule: lazy_path.induct)
    case (1 imagePath)
    then show ?case by simp
  next
    case (2 imagePath c cs)
    show ?case
    proof (cases "if c = lbracket then lazy_alt [] cs else None")
      case None
      with "2.prems" "2.IH" show ?thesis by (auto split: if_splits)
    next
      case (Some x)
      then obtain a'' r'' where h: "lazy_alt [] cs = Some (a'', r'')" and x: "x = (a'', r'')"
        by (cases x) (auto split: if_splits)
      with Some "2.prems" have "r = r''" by simp
      with alt_shorter [OF h] show ?thesis by simp
    qed
  qed
  from m x2 have "lazy_path [] (drop 7 (c # cs)) = Some (imagePath, alt, rest)"
    by (auto simp: image_regex_at_def split: if_splits)
  from path_shorter [OF this] show "(rest, c # cs) \<in> measure length"
    by simp
qed

text \<open>
  \<^verbatim>\<open>contents.join('\n\n')\<close>, as the loop of \<^verbatim>\<open>Array.prototype.join\<close>: the result
  starts empty, and the element of index \<open>k\<close> is appended after the separator when
  \<open>k > 0\<close>.
\<close>

fun join_loop :: "js_string \<Rightarrow> js_string list \<Rightarrow> nat \<Rightarrow> js_string \<Rightarrow> js_string" where
  "join_loop sep [] k R = R"
| "join_loop sep (x # xs) k R =
     join_loop sep xs (k + 1) ((if k > 0 then R @ sep else R) @ x)"

definition Array_join :: "js_string list \<Rightarrow> js_string \<Rightarrow> js_string" where
  "Array_join xs sep = join_loop sep xs 0 []"

text \<open>
  The same in the words of the specification: the documents in order, a blank line
  (two line feeds) between each adjacent pair. It is compared with \<open>Array_join\<close> below.
\<close>

fun blank_line_joined :: "js_string list \<Rightarrow> js_string" where
  "blank_line_joined [] = []"
| "blank_line_joined [x] = x"
| "blank_line_joined (x # y # ys) = x @ [0x0A, 0x0A] @ blank_line_joined (y # ys)"

section \<open>The outside world\<close>

text \<open>
  The HTTP client, the file system, the markup renderer and the headless browser are
  libraries outside the repository. A run is modelled against an environment that
  fixes what each external call of the run answers, by the position of the call in the
  run: the \<open>k\<close>-th external call is answered by the reply of index \<open>k\<close>. Every call
  may be rejected with any error value. Every call is taken to settle: a run in which
  a call stays pending for ever is suspended at that call and is no run of the model.
\<close>

text \<open>
  Error values: the two kinds that the libraries of the network and of the file system
  throw, any other error of a library, and the TypeError of the language. The number
  tells two errors of a kind apart.
\<close>

datatype error = RemoteFetchError nat | FilesystemError nat | LibraryError nat | TypeError

text \<open>The data of a response: a string, or a buffer of bytes.\<close>

datatype payload = Text js_string | Bytes "8 word list"

text \<open>
  An entry of a listing as the remote interface answers it (its fields \<^verbatim>\<open>name\<close> and
  \<^verbatim>\<open>download_url\<close>; the others are not read), the pair \<^verbatim>\<open>{name, downloadUrl}\<close> that the
  selectors make of it, and the configuration of a request (the timeout is in
  milliseconds).
\<close>

record listing_entry =
  entry_name :: js_string
  download_url :: js_string

record remote_file =
  name :: js_string
  downloadUrl :: js_string

record request_config =
  responseType :: js_string
  family :: nat
  timeout :: nat

text \<open>
  Paths are kept resolved against the working directory, as lists of segments:
  \<^verbatim>\<open>./temp_adoc_files\<close> and \<^verbatim>\<open>path.join(TEMP_DIR, 'code')\<close> are \<open>[temp_adoc_files]\<close> and
  \<open>[temp_adoc_files, code]\<close>. The name of a listing entry is one segment.
\<close>

type_synonym path = "js_string list"

text \<open>The external calls, with the arguments that the program computes.\<close>

datatype call =
    AxiosGet js_string "request_config option"
  | FsEnsureDir path
  | FsOutputFile path payload
  | FsWriteFile path payload
  | FsRemove path
  | ConvertFile path
  | PuppeteerLaunch
  | NewPage
  | SetViewport nat nat
  | SetJavaScriptEnabled bool
  | SetContent js_string
  | WaitForFunction
  | EvaluateTypeset
  | EvaluateImages
  | PagePdf path
  | BrowserClose

text \<open>
  The environment: the replies by kind of call (a listing, a file, the HTML of the
  renderer, or nothing), the decoder of \<^verbatim>\<open>Buffer.toString('utf8')\<close>, the working
  directory that \<^verbatim>\<open>path.resolve\<close> reads, the two parts of the page shell that
  \<^verbatim>\<open>saveAsPDF\<close> puts around the HTML, a constant text of \<^verbatim>\<open>main.js\<close>, and what
  the runtime does with a promise that is rejected while nothing reads it (see
  \<open>unread\<close> below).
\<close>

record env =
  listing_reply :: "nat \<Rightarrow> error + listing_entry list"
  file_reply :: "nat \<Rightarrow> error + payload"
  convert_reply :: "nat \<Rightarrow> error + js_string"
  effect_reply :: "nat \<Rightarrow> error + unit"
  utf8_decode :: "8 word list \<Rightarrow> js_string"
  cwd :: path
  shell_head :: js_string
  shell_tail :: js_string
  unread_rejection_fatal :: bool

datatype console_arg = Str js_string | Err error

datatype console_line = Log "console_arg list" | Error "console_arg list"

text \<open>
  The state of a run: the external calls issued so far, each with the error it was
  rejected with (\<open>None\<close> when it was fulfilled), the paths that exist in the file
  system, the lines that the program wrote to the console, and the unhandled rejection
  that has ended the process, if one has. A call that is still pending when the
  process ends has no outcome and is not in the trace.
\<close>

record world =
  calls :: "(call \<times> error option) list"
  fs :: "path set"
  console :: "console_line list"
  ended :: "error option"

text \<open>
  An asynchronous operation, run to its settlement: it is rejected with an error
  (\<open>Inl\<close>) or fulfilled with a value (\<open>Inr\<close>), and leaves a new state. When the
  new state is one of a process that has ended, \<open>Inl\<close> stands for an operation that is
  never resumed (see \<open>unread\<close> below).
\<close>

type_synonym 'a promise = "world \<Rightarrow> (error + 'a) \<times> world"

text \<open>
  The operations that the program launches together are run here one after the other,
  each to its settlement, in the order they are launched in. This is one interleaving
  of a real run: the calls of one operation keep their order, and no statement below
  depends on the order of calls that belong to different operations launched together.
\<close>

definition resolve :: "'a \<Rightarrow> 'a promise" where
  "resolve x w = (Inr x, w)"

definition reject :: "error \<Rightarrow> 'a promise" where
  "reject e w = (Inl e, w)"

text \<open>\<^verbatim>\<open>const x = await m; k(x)\<close>: a rejection of \<open>m\<close> is thrown, and \<open>k\<close> does not run.\<close>

definition await :: "'a promise \<Rightarrow> ('a \<Rightarrow> 'b promise) \<Rightarrow> 'b promise" where
  "await m k w = (case m w of (Inl e, w1) \<Rightarrow> (Inl e, w1) | (Inr x, w1) \<Rightarrow> k x w1)"

text \<open>\<^verbatim>\<open>try { m } catch (error) { h(error) }\<close>\<close>

definition try_catch :: "'a promise \<Rightarrow> (error \<Rightarrow> 'a promise) \<Rightarrow> 'a promise" where
  "try_catch m h w = (case m w of (Inl e, w1) \<Rightarrow> h e w1 | (Inr x, w1) \<Rightarrow> (Inr x, w1))"

text \<open>
  A call that is made and not awaited on the spot: the operation runs, and its
  settlement is kept in the promise handed to the continuation.
\<close>

definition launch :: "'a promise \<Rightarrow> (error + 'a \<Rightarrow> 'b promise) \<Rightarrow> 'b promise" where
  "launch m k w = (case m w of (r, w1) \<Rightarrow> k r w1)"

text \<open>
  A promise without a reader. A promise that is rejected while no handler is attached
  to it is an unhandled rejection, and what becomes of it is the runtime's: Node from
  version 15 on ends the process with the error (its default mode, \<^verbatim>\<open>throw\<close>), and
  earlier versions print a warning and go on. \<open>unread E p k\<close> is a step \<open>k\<close> of an
  asynchronous function at which the function is suspended while the promise \<open>p\<close>,
  launched before, has no reader yet. When \<open>p\<close> is rejected and the environment has
  \<open>unread_rejection_fatal\<close>, the process ends there with the error of \<open>p\<close>: the
  function is never resumed, and no handler of the program runs. The model records
  the error in \<open>ended\<close> and answers it as \<open>Inl\<close>, so that every \<open>await\<close> above passes
  it on. Otherwise the step is taken and \<open>p\<close> waits for its reader;
  \<open>unread_rejection_fatal\<close> is false for a runtime that goes on, and for a run in
  which \<open>p\<close> is rejected only after it got its reader. A promise that never gets a
  reader, because the step itself throws, is left to the runtime after \<^verbatim>\<open>main\<close> has
  settled, where the model stops.
\<close>

definition unread :: "env \<Rightarrow> error + 'a \<Rightarrow> 'b promise \<Rightarrow> 'b promise" where
  "unread E p k w =
     (case p of
        Inl e \<Rightarrow> if unread_rejection_fatal E then (Inl e, w\<lparr>ended := Some e\<rparr>) else k w
      | Inr x \<Rightarrow> k w)"

text \<open>
  \<^verbatim>\<open>Promise.all\<close> over an array of calls: every operation is launched, whatever the
  others do, and the result is the array of their values in the order of the array,
  or a rejection when one of them is rejected. The operations are run to their
  settlement in the order they are launched in, so the rejection that settles first
  is the first of the array.
\<close>

fun launch_all :: "'a promise list \<Rightarrow> world \<Rightarrow> (error + 'a) list \<times> world" where
  "launch_all [] w = ([], w)"
| "launch_all (p # ps) w =
     (case p w of (r, w1) \<Rightarrow> (case launch_all ps w1 of (rs, w2) \<Rightarrow> (r # rs, w2)))"

fun settle_all :: "(error + 'a) list \<Rightarrow> error + 'a list" where
  "settle_all [] = Inr []"
| "settle_all (Inl e # rs) = Inl e"
| "settle_all (Inr x # rs) = (case settle_all rs of Inl e \<Rightarrow> Inl e | Inr xs \<Rightarrow> Inr (x # xs))"

definition Promise_all :: "'a promise list \<Rightarrow> 'a list promise" where
  "Promise_all ps w = (case launch_all ps w of (rs, w1) \<Rightarrow> (settle_all rs, w1))"

text \<open>An external call: it is recorded with its outcome, taken from the environment.\<close>

definition external :: "call \<Rightarrow> (nat \<Rightarrow> error + 'a) \<Rightarrow> 'a promise" where
  "external c reply w =
     (let r = reply (length (calls w))
      in (r, w\<lparr>calls := calls w @ [(c, case r of Inl e \<Rightarrow> Some e | Inr x \<Rightarrow> None)]\<rparr>))"

definition console_log :: "console_arg list \<Rightarrow> unit promise" where
  "console_log args w = (Inr (), w\<lparr>console := console w @ [Log args]\<rparr>)"

definition console_error :: "console_arg list \<Rightarrow> unit promise" where
  "console_error args w = (Inr (), w\<lparr>console := console w @ [Error args]\<rparr>)"

text \<open>\<^verbatim>\<open>axios.get(url)\<close> of the listing endpoint, and \<^verbatim>\<open>axios.get(url, config)\<close>.\<close>

definition axios_get_listing :: "env \<Rightarrow> js_string \<Rightarrow> listing_entry list promise" where
  "axios_get_listing E url = external (AxiosGet url None) (listing_reply E)"

definition axios_get :: "env \<Rightarrow> js_string \<Rightarrow> request_config \<Rightarrow> payload promise" where
  "axios_get E url config = external (AxiosGet url (Some config)) (file_reply E)"

text \<open>
  The file system of fs-extra. \<^verbatim>\<open>ensureDir\<close> and \<^verbatim>\<open>outputFile\<close> create the missing
  parent directories, \<^verbatim>\<open>remove\<close> deletes a path with everything below it. A rejected
  call leaves the set of paths as it was.
\<close>

definition fs_effect :: "env \<Rightarrow> call \<Rightarrow> (path set \<Rightarrow> path set) \<Rightarrow> unit promise" where
  "fs_effect E c f = await (external c (effect_reply E)) (\<lambda>_ w. (Inr (), w\<lparr>fs := f (fs w)\<rparr>))"

definition fs_ensureDir :: "env \<Rightarrow> path \<Rightarrow> unit promise" where
  "fs_ensureDir E p = fs_effect E (FsEnsureDir p) (\<lambda>S. S \<union> set (prefixes p))"

definition fs_outputFile :: "env \<Rightarrow> path \<Rightarrow> payload \<Rightarrow> unit promise" where
  "fs_outputFile E p data = fs_effect E (FsOutputFile p data) (\<lambda>S. S \<union> set (prefixes p))"

definition fs_writeFile :: "env \<Rightarrow> path \<Rightarrow> payload \<Rightarrow> unit promise" where
  "fs_writeFile E p data = fs_effect E (FsWriteFile p data) (\<lambda>S. insert p S)"

definition fs_remove :: "env \<Rightarrow> path \<Rightarrow> unit promise" where
  "fs_remove E p = fs_effect E (FsRemove p) (\<lambda>S. Set.filter (\<lambda>q. \<not> prefix p q) S)"

text \<open>
  The renderer and the browser. \<^verbatim>\<open>asciidoctor.convertFile\<close> answers the HTML; the calls
  of puppeteer answer nothing that the program reads. \<^verbatim>\<open>page.pdf\<close> writes the file it
  is given the path of. The options of these calls are constants of \<^verbatim>\<open>main.js\<close> and
  are left out, and so are the listeners registered with \<^verbatim>\<open>page.on\<close>, which only add
  console lines chosen by the browser.
\<close>

definition asciidoctor_convertFile :: "env \<Rightarrow> path \<Rightarrow> js_string promise" where
  "asciidoctor_convertFile E p = external (ConvertFile p) (convert_reply E)"

definition browser_call :: "env \<Rightarrow> call \<Rightarrow> unit promise" where
  "browser_call E c = external c (effect_reply E)"

definition page_pdf :: "env \<Rightarrow> path \<Rightarrow> unit promise" where
  "page_pdf E p = fs_effect E (PagePdf p) (\<lambda>S. insert p S)"

section \<open>The program\<close>

definition OUTPUT_FILE :: path where
  "OUTPUT_FILE = [str ''mastering-bitcoin.pdf'']"

definition TEMP_DIR :: path where
  "TEMP_DIR = [str ''temp_adoc_files'']"

definition API_URL :: js_string where
  "API_URL = str ''https://api.github.com/repos/bitcoinbook/bitcoinbook/contents''"

text \<open>The text of a relative path, and of \<^verbatim>\<open>path.resolve\<close> of it.\<close>

definition path_text :: "path \<Rightarrow> js_string" where
  "path_text p = Array_join p (str ''/'')"

definition path_resolve_text :: "env \<Rightarrow> path \<Rightarrow> js_string" where
  "path_resolve_text E p = str ''/'' @ path_text (cwd E @ p)"

definition fetchRepoContents :: "env \<Rightarrow> js_string \<Rightarrow> listing_entry list promise" where
  "fetchRepoContents E folder =
     try_catch
       (await (axios_get_listing E (API_URL @ str ''/'' @ folder)) (\<lambda>data. resolve data))
       (\<lambda>error.
          await (console_error [Str (str ''Error fetching repository contents:''), Err error])
            (\<lambda>_. reject error))"

text \<open>\<^verbatim>\<open>response.data.toString('utf8')\<close>: a string is returned as it is, a buffer decoded.\<close>

definition toString :: "env \<Rightarrow> payload \<Rightarrow> js_string" where
  "toString E data = (case data of Text s \<Rightarrow> s | Bytes b \<Rightarrow> utf8_decode E b)"

definition downloadFile :: "env \<Rightarrow> js_string \<Rightarrow> js_string \<Rightarrow> payload promise" where
  "downloadFile E fileUrl rt =
     try_catch
       (await (axios_get E fileUrl \<lparr>responseType = rt, family = 4, timeout = 10000\<rparr>)
          (\<lambda>data. resolve (if rt = str ''arraybuffer'' then data else Text (toString E data))))
       (\<lambda>error.
          await (console_error [Str (str ''Error downloading file:''), Err error])
            (\<lambda>_. reject error))"

definition to_remote_file :: "listing_entry \<Rightarrow> remote_file" where
  "to_remote_file file = \<lparr>name = entry_name file, downloadUrl = download_url file\<rparr>"

definition getChapterFiles :: "env \<Rightarrow> remote_file list promise" where
  "getChapterFiles E =
     await (fetchRepoContents E [])
       (\<lambda>repoContents.
          resolve
            (map to_remote_file
               (filter
                  (\<lambda>file. startsWith (entry_name file) (str ''ch'')
                     \<and> endsWith (entry_name file) (str ''.adoc''))
                  repoContents)))"

definition getCodeFiles :: "env \<Rightarrow> remote_file list promise" where
  "getCodeFiles E =
     await (fetchRepoContents E (str ''code''))
       (\<lambda>codeContents. resolve (map to_remote_file codeContents))"

definition getImageFiles :: "env \<Rightarrow> remote_file list promise" where
  "getImageFiles E =
     await (fetchRepoContents E (str ''images''))
       (\<lambda>imageContents. resolve (map to_remote_file imageContents))"

text \<open>
  \<^verbatim>\<open>files.map((file, index) => ...)\<close> pairs each file with its index; \<^verbatim>\<open>contents\<close> has
  the length of \<^verbatim>\<open>files\<close>, so \<^verbatim>\<open>contents[index]\<close> is always in range.
\<close>

definition createCodeFiles :: "env \<Rightarrow> remote_file list \<Rightarrow> unit promise" where
  "createCodeFiles E files =
     await (Promise_all (map (\<lambda>file. downloadFile E (downloadUrl file) (str ''utf8'')) files))
       (\<lambda>contents.
     await (fs_ensureDir E (TEMP_DIR @ [str ''code'']))
       (\<lambda>_.
     await
       (Promise_all
          (map (\<lambda>(file, index).
                  fs_outputFile E (TEMP_DIR @ [str ''code'', name file]) (contents ! index))
             (zip files [0..<length files])))
       (\<lambda>_. resolve ())))"

definition createImageFiles :: "env \<Rightarrow> remote_file list \<Rightarrow> unit promise" where
  "createImageFiles E files =
     await
       (Promise_all (map (\<lambda>file. downloadFile E (downloadUrl file) (str ''arraybuffer'')) files))
       (\<lambda>contents.
     await (fs_ensureDir E (TEMP_DIR @ [str ''images'']))
       (\<lambda>_.
     await
       (Promise_all
          (map (\<lambda>(file, index).
                  fs_writeFile E (TEMP_DIR @ [str ''images'', name file]) (contents ! index))
             (zip files [0..<length files])))
       (\<lambda>_.
     console_log [Str (str ''Images saved to '' @ path_text (TEMP_DIR @ [str ''images'']))])))"

text \<open>
  \<^verbatim>\<open>content.replace(...)\<close> on a downloaded content: a buffer has no \<^verbatim>\<open>replace\<close>, which
  would be a TypeError. \<open>downloadFile\<close> with the hint \<^verbatim>\<open>'utf8'\<close> never answers a buffer.
\<close>

definition content_replace :: "payload \<Rightarrow> error + js_string" where
  "content_replace content =
     (case content of Text s \<Rightarrow> Inr (replace_image_refs s) | Bytes b \<Rightarrow> Inl TypeError)"

definition mergeFiles :: "env \<Rightarrow> remote_file list \<Rightarrow> js_string promise" where
  "mergeFiles E files =
     await (Promise_all (map (\<lambda>file. downloadFile E (downloadUrl file) (str ''utf8'')) files))
       (\<lambda>contents.
          case settle_all (map content_replace contents) of
            Inl e \<Rightarrow> reject e
          | Inr contents' \<Rightarrow> resolve (Array_join contents' [0x0A, 0x0A]))"

definition htmlWithMathJax :: "env \<Rightarrow> js_string \<Rightarrow> js_string" where
  "htmlWithMathJax E html = shell_head E @ html @ shell_tail E"

text \<open>\<^verbatim>\<open>m.catch(err => console.error(label, err))\<close>\<close>

definition catch_log :: "unit promise \<Rightarrow> js_string \<Rightarrow> unit promise" where
  "catch_log m label = try_catch m (\<lambda>err. console_error [Str label, Err err])"

definition saveAsPDF :: "env \<Rightarrow> js_string \<Rightarrow> unit promise" where
  "saveAsPDF E mergedContent =
     await (fs_outputFile E (TEMP_DIR @ [str ''merged.adoc'']) (Text mergedContent)) (\<lambda>_.
     await (console_log [Str (str ''Images directory:''),
                         Str (path_resolve_text E (TEMP_DIR @ [str ''images'']))]) (\<lambda>_.
     await (console_log [Str (str ''Converting AsciiDoc to HTML...'')]) (\<lambda>_.
     await (asciidoctor_convertFile E (TEMP_DIR @ [str ''merged.adoc''])) (\<lambda>html.
     await (console_log [Str (str ''Launching Puppeteer...'')]) (\<lambda>_.
     await (browser_call E PuppeteerLaunch) (\<lambda>_.
     await (browser_call E NewPage) (\<lambda>_.
     await (browser_call E (SetViewport 1200 800)) (\<lambda>_.
     await (browser_call E (SetJavaScriptEnabled True)) (\<lambda>_.
     await (console_log [Str (str ''Setting page content...'')]) (\<lambda>_.
     await (browser_call E (SetContent (htmlWithMathJax E html))) (\<lambda>_.
     await (console_log [Str (str ''Waiting for MathJax...'')]) (\<lambda>_.
     await (catch_log (browser_call E WaitForFunction) (str ''MathJax loading error:'')) (\<lambda>_.
     await (catch_log (browser_call E EvaluateTypeset) (str ''MathJax typesetting error:'')) (\<lambda>_.
     await (console_log [Str (str ''Waiting for images to load...'')]) (\<lambda>_.
     await (browser_call E EvaluateImages) (\<lambda>_.
     await (console_log [Str (str ''Generating PDF...'')]) (\<lambda>_.
     await (page_pdf E OUTPUT_FILE) (\<lambda>_.
     await (Promise_all [browser_call E BrowserClose, fs_remove E TEMP_DIR]) (\<lambda>_.
     console_log [Str (str ''PDF saved as '' @ path_text OUTPUT_FILE)])))))))))))))))))))"

text \<open>
  \<^verbatim>\<open>Promise.all([createCodeFiles(await getCodeFiles()), createImageFiles(await
  getImageFiles()), getChapterFiles()])\<close>: the elements of the array are evaluated in
  order, and \<^verbatim>\<open>Promise.all\<close> is called on the complete array. Each \<^verbatim>\<open>await\<close> inside
  the array throws before the later elements are launched. While \<^verbatim>\<open>main\<close> is
  suspended at \<^verbatim>\<open>await getImageFiles()\<close>, the promise of \<^verbatim>\<open>createCodeFiles\<close>, launched
  before, has no reader: this is the step \<open>unread\<close> below. The promises of
  \<^verbatim>\<open>createImageFiles\<close> and of \<^verbatim>\<open>getChapterFiles\<close> are made and handed to
  \<^verbatim>\<open>Promise.all\<close> without a suspension in between.
\<close>

definition all3 :: "error + unit \<Rightarrow> error + unit \<Rightarrow> error + 'a \<Rightarrow> 'a promise" where
  "all3 p1 p2 p3 =
     (case p1 of
        Inl e \<Rightarrow> reject e
      | Inr _ \<Rightarrow>
          (case p2 of
             Inl e \<Rightarrow> reject e
           | Inr _ \<Rightarrow> (case p3 of Inl e \<Rightarrow> reject e | Inr x \<Rightarrow> resolve x)))"

text \<open>
  The \<^verbatim>\<open>try\<close> block of \<^verbatim>\<open>main\<close> up to the joined staging and listing (the lines up to
  the destructuring of \<^verbatim>\<open>chapterFiles\<close>); \<open>all3\<close> above is \<^verbatim>\<open>Promise.all\<close> on the three
  promises of the array.
\<close>

definition stage_assets :: "env \<Rightarrow> remote_file list promise" where
  "stage_assets E =
     await (console_log [Str (str ''Creating temporary directory...'')]) (\<lambda>_.
     await (fs_ensureDir E TEMP_DIR) (\<lambda>_.
     await (console_log [Str (str ''Processing code files...'')]) (\<lambda>_.
     await (console_log [Str (str ''Processing image files...'')]) (\<lambda>_.
     await (console_log [Str (str ''Processing chapter files...'')]) (\<lambda>_.
     await (getCodeFiles E) (\<lambda>codeFiles.
     launch (createCodeFiles E codeFiles) (\<lambda>p1.
     unread E p1 (
     await (getImageFiles E) (\<lambda>imageFiles.
     launch (createImageFiles E imageFiles) (\<lambda>p2.
     launch (getChapterFiles E) (\<lambda>p3.
     all3 p1 p2 p3)))))))))))"

text \<open>
  The whole \<^verbatim>\<open>try\<close> block, and \<^verbatim>\<open>main\<close> with its handler. The handler runs on an
  error thrown in the \<^verbatim>\<open>try\<close> block of a process that is running; in a process that
  has ended \<^verbatim>\<open>main\<close> is never resumed, which the model answers as \<open>Inl\<close> with
  \<open>ended\<close> set.
\<close>

definition main_try :: "env \<Rightarrow> unit promise" where
  "main_try E =
     await (stage_assets E) (\<lambda>chapterFiles.
     await (mergeFiles E chapterFiles) (\<lambda>mergedContent.
     await (console_log [Str (str ''Generating PDF...'')]) (\<lambda>_.
     await (saveAsPDF E mergedContent) (\<lambda>_.
     console_log [Str (str ''Process completed successfully!'')]))))"

definition main :: "env \<Rightarrow> unit promise" where
  "main E =
     try_catch (main_try E)
       (\<lambda>error w.
          case ended w of
            None \<Rightarrow> console_error [Str (str ''Error:''), Err error] w
          | Some unhandled \<Rightarrow> (Inl error, w))"

section \<open>Notions used to state the properties\<close>

text \<open>
  A text cut into pieces: text outside image directives, and directives
  \<^verbatim>\<open>image::<path>[<alt>]\<close>. \<open>source_text\<close> is a piece as the chapter has it, and
  \<open>merged_text\<close> the piece as the merged document is claimed to have it: the same
  outside a directive, the path cleaned and the rest kept inside one.
\<close>

datatype segment = Outside js_string | Directive js_string js_string

fun source_text :: "segment \<Rightarrow> js_string" where
  "source_text (Outside t) = t"
| "source_text (Directive imagePath alt) =
     str ''image::'' @ imagePath @ [lbracket] @ alt @ [rbracket]"

fun merged_text :: "segment \<Rightarrow> js_string" where
  "merged_text (Outside t) = t"
| "merged_text (Directive imagePath alt) =
     str ''image::'' @ cleanImagePath imagePath @ [lbracket] @ alt @ [rbracket]"

text \<open>
  The directives in the words of the claims, to compare the rewrite with. The two
  parts of a directive \<^verbatim>\<open>image::<path>[<alt>]\<close> stand on one line: the path is the
  text up to the first opening bracket, the alternative text the text up to the first
  closing bracket after it. \<open>up_to d s\<close> cuts \<open>s\<close> at the first \<open>d\<close> of its first
  line, \<open>directive_at s\<close> reads a directive at the start of \<open>s\<close>, and
  \<open>directive_segments s\<close> cuts \<open>s\<close> from left to right into its directives and the
  code units outside them. No backtracking is involved.
\<close>

definition directive_parts :: "js_string \<Rightarrow> js_string \<Rightarrow> bool" where
  "directive_parts imagePath alt =
     (lbracket \<notin> set imagePath \<and> (\<forall>c \<in> set imagePath. \<not> is_line_terminator c)
      \<and> rbracket \<notin> set alt \<and> (\<forall>c \<in> set alt. \<not> is_line_terminator c))"

fun up_to :: "code_unit \<Rightarrow> js_string \<Rightarrow> (js_string \<times> js_string) option" where
  "up_to d [] = None"
| "up_to d (c # cs) =
     (if c = d then Some ([], cs)
      else if is_line_terminator c then None
      else map_option (\<lambda>(t, rest). (c # t, rest)) (up_to d cs))"

definition directive_at :: "js_string \<Rightarrow> (js_string \<times> js_string \<times> js_string) option" where
  "directive_at s =
     (if prefix (str ''image::'') s then
        (case up_to lbracket (drop 7 s) of
           None \<Rightarrow> None
         | Some (imagePath, s1) \<Rightarrow>
             (case up_to rbracket s1 of
                None \<Rightarrow> None
              | Some (alt, rest) \<Rightarrow> Some (imagePath, alt, rest)))
      else None)"

function directive_segments :: "js_string \<Rightarrow> segment list" where
  "directive_segments [] = []"
| "directive_segments (c # cs) =
     (case directive_at (c # cs) of
        Some (imagePath, alt, rest) \<Rightarrow> Directive imagePath alt # directive_segments rest
      | None \<Rightarrow> Outside [c] # directive_segments cs)"
  by pat_completeness auto
termination
proof (relation "measure length")
  show "wf (measure length)" by simp
next
  fix c :: code_unit and cs :: js_string
  show "(cs, c # cs) \<in> measure length" by simp
next
  fix c cs x2 imagePath y alt rest
  assume m: "directive_at (c # cs) = Some x2" and x2: "(imagePath, y) = x2" "(alt, rest) = y"
  have shorter: "up_to d s = Some (t, r) \<Longrightarrow> length r < length s" for d s t r
    by (induction d s arbitrary: t rule: up_to.induct) (auto split: if_splits)
  from m x2 obtain s1 where "up_to lbracket (drop 7 (c # cs)) = Some (imagePath, s1)"
    "up_to rbracket s1 = Some (alt, rest)"
    by (auto simp: directive_at_def split: if_splits option.splits)
  from shorter [OF this(1)] shorter [OF this(2)] show "(rest, c # cs) \<in> measure length"
    by simp
qed

text \<open>The text after the last line terminator of a text: its unfinished last line.\<close>

definition last_line :: "js_string \<Rightarrow> js_string" where
  "last_line s = rev (takeWhile (\<lambda>c. \<not> is_line_terminator c) (rev s))"

text \<open>
  \<open>closed_before u\<close>: no directive is left open at the end of \<open>u\<close>. Either the last
  line of \<open>u\<close> has no \<^verbatim>\<open>image::\<close>, or \<open>u\<close> is a text that leaves no directive open,
  followed by a complete directive and by text without \<^verbatim>\<open>image::\<close>. A directive that
  comes right after \<open>u\<close> is then not inside an earlier one: an \<^verbatim>\<open>image::\<close> before it on
  its line that is left open would take it in, as the path or the alternative text of
  its own match.
\<close>

inductive closed_before :: "js_string \<Rightarrow> bool" where
  plain: "\<not> sublist (str ''image::'') (last_line u) \<Longrightarrow> closed_before u"
| after_directive:
    "closed_before u \<Longrightarrow> directive_parts imagePath alt \<Longrightarrow> \<not> sublist (str ''image::'') v \<Longrightarrow>
       closed_before (u @ str ''image::'' @ imagePath @ [lbracket] @ alt @ [rbracket] @ v)"

text \<open>
  Notions on the trace of calls. A failed download is a request with a configuration
  (the requests of \<open>downloadFile\<close>) that was rejected. The calls of \<open>saveAsPDF\<close> are
  the write of \<^verbatim>\<open>merged.adoc\<close> and every call of the renderer, of the browser and of
  the final removal: no other function of the program issues them. \<open>new_calls w w'\<close>
  are the calls issued between two states of a run.
\<close>

fun is_failed_download :: "call \<times> error option \<Rightarrow> bool" where
  "is_failed_download (AxiosGet url (Some config), Some e) = True"
| "is_failed_download _ = False"

fun is_remove :: "call \<times> error option \<Rightarrow> bool" where
  "is_remove (FsRemove p, r) = True"
| "is_remove _ = False"

fun saveAsPDF_call :: "call \<times> error option \<Rightarrow> bool" where
  "saveAsPDF_call (AxiosGet url config, r) = False"
| "saveAsPDF_call (FsEnsureDir p, r) = False"
| "saveAsPDF_call (FsWriteFile p data, r) = False"
| "saveAsPDF_call (FsOutputFile p data, r) = (p = TEMP_DIR @ [str ''merged.adoc''])"
| "saveAsPDF_call _ = True"

definition new_calls :: "world \<Rightarrow> world \<Rightarrow> (call \<times> error option) list" where
  "new_calls w w' = drop (length (calls w)) (calls w')"

text \<open>
  Two relations for the proofs. \<open>grows P w w'\<close>: the state \<open>w'\<close> extends the trace of
  \<open>w\<close> by calls that satisfy \<open>P\<close>, and unless a removal was called no path was lost
  and the directories of the fulfilled \<^verbatim>\<open>ensureDir\<close> calls exist.
  \<open>issues m P Q\<close>: every run of \<open>m\<close> issues only calls that satisfy \<open>P\<close>, and a fulfilled
  run only calls that satisfy \<open>Q\<close>.
\<close>

definition grows :: "(call \<times> error option \<Rightarrow> bool) \<Rightarrow> world \<Rightarrow> world \<Rightarrow> bool" where
  "grows P w w' =
     (\<exists>cs. calls w' = calls w @ cs \<and> list_all P cs
        \<and> (list_all (\<lambda>c. \<not> is_remove c) cs \<longrightarrow>
             fs w \<subseteq> fs w' \<and> (\<forall>p. (FsEnsureDir p, None) \<in> set cs \<longrightarrow> p \<in> fs w')))"

definition issues ::
  "'a promise \<Rightarrow> (call \<times> error option \<Rightarrow> bool) \<Rightarrow> (call \<times> error option \<Rightarrow> bool) \<Rightarrow> bool"
where
  "issues m P Q =
     (\<forall>w r w'. m w = (r, w') \<longrightarrow> grows P w w' \<and> ((\<exists>x. r = Inr x) \<longrightarrow> grows Q w w'))"

definition never_fulfilled :: "'a promise \<Rightarrow> bool" where
  "never_fulfilled m = (\<forall>w x w'. m w \<noteq> (Inr x, w'))"

text \<open>
  \<open>runs m R\<close>: every run of \<open>m\<close> relates its two states, and whether it was fulfilled, by
  \<open>R\<close>. \<open>cleanup_last\<close> is the relation that the PDF stage keeps: the removal of the
  temporary directory is called only after the PDF was written, and a fulfilled run ends
  with the PDF written, the browser closed and the directory removed.
\<close>

definition runs :: "'a promise \<Rightarrow> (world \<Rightarrow> bool \<Rightarrow> world \<Rightarrow> bool) \<Rightarrow> bool" where
  "runs m R = (\<forall>w r w'. m w = (r, w') \<longrightarrow> R w (\<exists>x. r = Inr x) w')"

definition cleanup_last :: "world \<Rightarrow> bool \<Rightarrow> world \<Rightarrow> bool" where
  "cleanup_last w fulfilled w' =
     (\<exists>cs. calls w' = calls w @ cs
        \<and> (list_ex is_remove cs \<longrightarrow> (PagePdf OUTPUT_FILE, None) \<in> set cs)
        \<and> (fulfilled \<longrightarrow>
             TEMP_DIR \<notin> fs w' \<and> OUTPUT_FILE \<in> fs w'
             \<and> (\<exists>cs'. cs = cs' @ [(PagePdf OUTPUT_FILE, None), (BrowserClose, None),
                                  (FsRemove TEMP_DIR, None)])))"

text \<open>
  \<open>all_fulfilled E n\<close>: no external call from position \<open>n\<close> on is rejected.
  \<open>fulfils E m\<close>: in such a run \<open>m\<close> is fulfilled.
\<close>

definition all_fulfilled :: "env \<Rightarrow> nat \<Rightarrow> bool" where
  "all_fulfilled E n =
     (\<forall>k\<ge>n. (\<exists>l. listing_reply E k = Inr l) \<and> (\<exists>d. file_reply E k = Inr d)
        \<and> (\<exists>h. convert_reply E k = Inr h) \<and> effect_reply E k = Inr ())"

definition fulfils :: "env \<Rightarrow> 'a promise \<Rightarrow> bool" where
  "fulfils E m =
     (\<forall>w. all_fulfilled E (length (calls w)) \<longrightarrow>
        (\<exists>x w'. m w = (Inr x, w') \<and> length (calls w) \<le> length (calls w')))"

text \<open>
  An environment and an initial state to run the program on concrete inputs. Its
  runtime ends the process on an unhandled rejection, and its decoder is the one of
  the bytes below 0x80, all that the examples use.
\<close>

definition demo_env ::
  "(nat \<Rightarrow> error + listing_entry list) \<Rightarrow> (nat \<Rightarrow> error + payload) \<Rightarrow> (nat \<Rightarrow> error + unit) \<Rightarrow> env"
where
  "demo_env L F X =
     \<lparr>listing_reply = L, file_reply = F, convert_reply = (\<lambda>k. Inr (str ''<p>doc</p>'')),
      effect_reply = X, utf8_decode = map ucast, cwd = [str ''work''],
      shell_head = str ''<html>'', shell_tail = str ''</html>'', unread_rejection_fatal = True\<rparr>"

definition empty_world :: world where
  "empty_world = \<lparr>calls = [], fs = {}, console = [], ended = None\<rparr>"

definition chapter_file :: "string \<Rightarrow> remote_file" where
  "chapter_file u = \<lparr>name = str ''ch.adoc'', downloadUrl = str u\<rparr>"

section \<open>The rewrite, one match at a time\<close>


lemma image_lit: "str ''image::'' = [0x69, 0x6D, 0x61, 0x67, 0x65, 0x3A, 0x3A]"
  by (simp add: str_def)

lemma images_lit: "str ''images/'' = [0x69, 0x6D, 0x61, 0x67, 0x65, 0x73, 0x2F]"
  by (simp add: str_def)

lemma startsWith_prefix: "startsWith s t = prefix t s"
  by (auto simp: startsWith_def prefix_def) (metis append_eq_conv_conj)

lemma endsWith_suffix: "endsWith s t = suffix t s"
  by (auto simp: endsWith_def suffix_def) (metis append_take_drop_id)

lemma lazy_alt_sound: "lazy_alt acc s = Some (a, r) \<Longrightarrow> acc @ s = a @ rbracket # r"
  by (induction acc s rule: lazy_alt.induct) (auto split: if_splits)

lemma lazy_path_sound:
  "lazy_path acc s = Some (p, a, r) \<Longrightarrow> acc @ s = p @ lbracket # a @ rbracket # r"
proof (induction acc s rule: lazy_path.induct)
  case (1 imagePath)
  then show ?case by simp
next
  case (2 imagePath c cs)
  show ?case
  proof (cases "if c = lbracket then lazy_alt [] cs else None")
    case None
    with "2.prems" "2.IH" show ?thesis by (auto split: if_splits)
  next
    case (Some x)
    then obtain a' r' where x: "x = (a', r')" by (cases x)
    from Some x have c: "c = lbracket" and h: "lazy_alt [] cs = Some (a', r')"
      by (auto split: if_splits)
    from "2.prems" Some x have "p = imagePath" "a = a'" "r = r'" by auto
    with lazy_alt_sound [OF h] c show ?thesis by simp
  qed
qed

lemma image_regex_at_sound:
  "image_regex_at s = Some (p, a, r) \<Longrightarrow> s = str ''image::'' @ p @ lbracket # a @ rbracket # r"
proof -
  assume h: "image_regex_at s = Some (p, a, r)"
  then have pre: "prefix (str ''image::'') s" and m: "lazy_path [] (drop 7 s) = Some (p, a, r)"
    by (auto simp: image_regex_at_def startsWith_prefix split: if_splits)
  from pre have "s = str ''image::'' @ drop 7 s"
    by (auto simp: prefix_def image_lit)
  with lazy_path_sound [OF m] show ?thesis by simp
qed

lemma replace_without_image:
  "\<not> sublist (str ''image::'') s \<Longrightarrow> replace_image_refs s = s"
proof (induction s rule: replace_image_refs.induct)
  case 1
  then show ?case by simp
next
  case (2 c cs)
  from "2.prems" have np: "\<not> prefix (str ''image::'') (c # cs)" and ns: "\<not> sublist (str ''image::'') cs"
    by (auto simp: sublist_Cons_right)
  from np have "image_regex_at (c # cs) = None"
    by (simp add: image_regex_at_def startsWith_prefix)
  then show ?case using "2.IH"(1) ns by simp
qed

lemma terminator_not_bracket:
  "is_line_terminator c \<Longrightarrow> c \<noteq> rbracket \<and> c \<noteq> lbracket"
  by (auto simp: is_line_terminator_def rbracket_def lbracket_def)

lemma lazy_alt_closed:
  "t \<noteq> [] \<Longrightarrow> is_line_terminator (last t) \<Longrightarrow>
     lazy_alt acc (t @ s) = map_option (\<lambda>(a, r). (a, r @ s)) (lazy_alt acc t)"
proof (induction acc t rule: lazy_alt.induct)
  case (1 alt)
  then show ?case by simp
next
  case (2 alt c cs)
  show ?case
  proof (cases "cs = []")
    case True
    with "2.prems" have "is_line_terminator c" by simp
    with True terminator_not_bracket [of c] show ?thesis by simp
  next
    case False
    with "2.prems" have "is_line_terminator (last cs)" by simp
    with False "2.IH" show ?thesis by simp
  qed
qed

lemma lazy_path_closed:
  "t \<noteq> [] \<Longrightarrow> is_line_terminator (last t) \<Longrightarrow>
     lazy_path acc (t @ s) = map_option (\<lambda>(p, a, r). (p, a, r @ s)) (lazy_path acc t)"
proof (induction acc t rule: lazy_path.induct)
  case (1 imagePath)
  then show ?case by simp
next
  case (2 imagePath c cs)
  show ?case
  proof (cases "cs = []")
    case True
    with "2.prems" have "is_line_terminator c" by simp
    with True terminator_not_bracket [of c] show ?thesis by simp
  next
    case False
    with "2.prems" have l: "is_line_terminator (last cs)" by simp
    show ?thesis
    proof (cases "if c = lbracket then lazy_alt [] cs else None")
      case None
      then have "(if c = lbracket then lazy_alt [] (cs @ s) else None) = None"
        using lazy_alt_closed [OF False l, of "[]" s] by (auto split: if_splits)
      with None "2.IH" [OF None _ False l] show ?thesis by simp
    next
      case (Some x)
      then obtain a r where x: "x = (a, r)" by (cases x)
      with Some have "(if c = lbracket then lazy_alt [] (cs @ s) else None) = Some (a, r @ s)"
        using lazy_alt_closed [OF False l, of "[]" s] by (auto split: if_splits)
      with Some x show ?thesis by simp
    qed
  qed
qed

lemma image_lit_no_terminator: "c \<in> set (str ''image::'') \<Longrightarrow> \<not> is_line_terminator c"
  by (auto simp: image_lit is_line_terminator_def)

lemma startsWith_closed:
  assumes "t \<noteq> []" "is_line_terminator (last t)"
  shows "startsWith (t @ s) (str ''image::'') = startsWith t (str ''image::'')"
proof (cases "7 \<le> length t")
  case True
  then show ?thesis by (simp add: startsWith_def image_lit)
next
  case False
  then have short: "length t < 7" by simp
  then have a: "\<not> startsWith t (str ''image::'')"
    by (auto simp: startsWith_def image_lit)
  have b: "\<not> startsWith (t @ s) (str ''image::'')"
  proof
    assume "startsWith (t @ s) (str ''image::'')"
    then have "prefix (str ''image::'') (t @ s)" by (simp add: startsWith_prefix)
    moreover have "length (str ''image::'') = 7" by (simp add: image_lit)
    ultimately have "prefix t (str ''image::'')"
      using short by (auto simp: prefix_append dest: prefix_length_le)
    then have "set t \<subseteq> set (str ''image::'')" by (auto simp: prefix_def)
    with assms(1) have "last t \<in> set (str ''image::'')" by auto
    with assms(2) image_lit_no_terminator show False by blast
  qed
  from a b show ?thesis by simp
qed

lemma image_regex_at_closed:
  assumes "t \<noteq> []" "is_line_terminator (last t)"
  shows "image_regex_at (t @ s) = map_option (\<lambda>(p, a, r). (p, a, r @ s)) (image_regex_at t)"
proof (cases "startsWith t (str ''image::'')")
  case False
  with startsWith_closed [OF assms] show ?thesis by (simp add: image_regex_at_def)
next
  case True
  then obtain u where u: "t = str ''image::'' @ u"
    by (auto simp: startsWith_prefix prefix_def)
  have "u \<noteq> []"
  proof
    assume "u = []"
    with u assms(2) have "is_line_terminator (last (str ''image::''))" by simp
    then show False by (simp add: image_lit is_line_terminator_def)
  qed
  moreover from this u assms(2) have "is_line_terminator (last u)" by simp
  ultimately have "lazy_path [] (u @ s) = map_option (\<lambda>(p, a, r). (p, a, r @ s)) (lazy_path [] u)"
    by (rule lazy_path_closed)
  moreover have "drop 7 t = u" "drop 7 (t @ s) = u @ s"
    using u by (simp_all add: image_lit)
  ultimately show ?thesis
    using True startsWith_closed [OF assms, of s] by (simp add: image_regex_at_def)
qed

lemma suffix_closed:
  "is_line_terminator (last t) \<Longrightarrow> t = q @ r \<Longrightarrow> r = [] \<or> is_line_terminator (last r)"
  by (cases "r = []") auto

lemma replace_closed:
  "t = [] \<or> is_line_terminator (last t) \<Longrightarrow>
     replace_image_refs (t @ s) = replace_image_refs t @ replace_image_refs s"
proof (induction t rule: replace_image_refs.induct)
  case 1
  then show ?case by simp
next
  case (2 c cs)
  then have l: "is_line_terminator (last (c # cs))" by simp
  have m: "image_regex_at (c # cs @ s) = map_option (\<lambda>(p, a, r). (p, a, r @ s)) (image_regex_at (c # cs))"
    using image_regex_at_closed [OF _ l, of s] by simp
  show ?case
  proof (cases "image_regex_at (c # cs)")
    case None
    from l have "cs = [] \<or> is_line_terminator (last cs)" by (auto split: if_splits)
    with "2.IH"(1) [OF None] None m show ?thesis by simp
  next
    case (Some x)
    then obtain p a r where x: "x = (p, a, r)" by (cases x)
    from image_regex_at_sound Some x
    have "c # cs = (str ''image::'' @ p @ lbracket # a @ [rbracket]) @ r" by simp
    with l have "r = [] \<or> is_line_terminator (last r)" by (rule suffix_closed)
    with "2.IH"(2) [OF Some x [symmetric] refl] Some x m show ?thesis by simp
  qed
qed

lemma lazy_alt_complete:
  "rbracket \<notin> set alt \<Longrightarrow> \<forall>c \<in> set alt. \<not> is_line_terminator c \<Longrightarrow>
     lazy_alt acc (alt @ rbracket # post) = Some (acc @ alt, post)"
  by (induction alt arbitrary: acc) auto

lemma lazy_path_complete:
  "lbracket \<notin> set p \<Longrightarrow> \<forall>c \<in> set p. \<not> is_line_terminator c \<Longrightarrow>
   rbracket \<notin> set alt \<Longrightarrow> \<forall>c \<in> set alt. \<not> is_line_terminator c \<Longrightarrow>
     lazy_path acc (p @ lbracket # alt @ rbracket # post) = Some (acc @ p, alt, post)"
proof (induction p arbitrary: acc)
  case Nil
  with lazy_alt_complete [of alt "[]" post] show ?case by simp
next
  case (Cons c p)
  from Cons.prems have "c \<noteq> lbracket" "\<not> is_line_terminator c" by auto
  with Cons.IH [of "acc @ [c]"] Cons.prems show ?case by simp
qed

lemma image_regex_at_directive:
  "lbracket \<notin> set p \<Longrightarrow> \<forall>c \<in> set p. \<not> is_line_terminator c \<Longrightarrow>
   rbracket \<notin> set alt \<Longrightarrow> \<forall>c \<in> set alt. \<not> is_line_terminator c \<Longrightarrow>
     image_regex_at (str ''image::'' @ p @ lbracket # alt @ rbracket # post) = Some (p, alt, post)"
  using lazy_path_complete [of p alt "[]" post]
  by (simp add: image_regex_at_def startsWith_def image_lit)

lemma replace_directive:
  assumes "lbracket \<notin> set p" "\<forall>c \<in> set p. \<not> is_line_terminator c"
    "rbracket \<notin> set alt" "\<forall>c \<in> set alt. \<not> is_line_terminator c"
  shows "replace_image_refs (str ''image::'' @ p @ lbracket # alt @ rbracket # post)
     = replacer p alt @ replace_image_refs post"
proof -
  obtain c cs where cs: "str ''image::'' @ p @ lbracket # alt @ rbracket # post = c # cs"
    by (simp add: image_lit)
  with image_regex_at_directive [OF assms, of post]
  have "image_regex_at (c # cs) = Some (p, alt, post)" by simp
  then have "replace_image_refs (c # cs) = replacer p alt @ replace_image_refs post" by simp
  with cs show ?thesis by simp
qed

lemma last_line_split:
  "\<exists>before. s = before @ last_line s \<and> (before = [] \<or> is_line_terminator (last before))"
proof -
  let ?P = "\<lambda>c. \<not> is_line_terminator c"
  let ?b = "rev (dropWhile ?P (rev s))"
  have "?b @ rev (takeWhile ?P (rev s)) = rev (takeWhile ?P (rev s) @ dropWhile ?P (rev s))"
    by (simp only: rev_append)
  also have "\<dots> = s"
    by (simp only: takeWhile_dropWhile_id rev_rev_ident)
  finally have a: "s = ?b @ last_line s" by (simp only: last_line_def)
  have "?b = [] \<or> is_line_terminator (last ?b)"
  proof (cases "dropWhile ?P (rev s) = []")
    case True
    then show ?thesis by simp
  next
    case False
    then have "\<not> ?P (hd (dropWhile ?P (rev s)))" by (rule hd_dropWhile)
    with False show ?thesis by (simp add: last_rev)
  qed
  with a show ?thesis by blast
qed

lemma no_match_across:
  assumes "u \<noteq> []" "\<not> sublist (str ''image::'') u" "startsWith s (str ''image::'')"
  shows "\<not> startsWith (u @ s) (str ''image::'')"
proof
  assume "startsWith (u @ s) (str ''image::'')"
  then have "prefix (str ''image::'') (u @ s)" by (simp add: startsWith_prefix)
  then consider "prefix (str ''image::'') u"
    | us where "str ''image::'' = u @ us" "prefix us s"
    by (auto simp: prefix_append)
  then show False
  proof cases
    case 1
    with assms(2) show ?thesis by auto
  next
    case 2
    from 2(1) assms(2) have ne: "us \<noteq> []" by auto
    from assms(1) 2(1) obtain c u' where u: "u = c # u'" by (cases u) auto
    with 2(1) have "tl (str ''image::'') = u' @ us" by (simp add: image_lit)
    with ne have "hd us \<in> set (tl (str ''image::''))"
      by (metis hd_in_set in_set_conv_decomp list.set_intros(1) list.exhaust_sel set_append UnCI)
    moreover from 2(2) ne assms(3) have "hd us = hd (str ''image::'')"
      by (auto simp: startsWith_prefix prefix_def image_lit) (metis hd_append2 list.sel(1))
    ultimately show ?thesis by (simp add: image_lit)
  qed
qed

lemma replace_after_plain:
  "\<not> sublist (str ''image::'') u \<Longrightarrow> startsWith s (str ''image::'') \<Longrightarrow>
     replace_image_refs (u @ s) = u @ replace_image_refs s"
proof (induction u)
  case Nil
  then show ?case by simp
next
  case (Cons c u)
  from Cons.prems(1) have nu: "\<not> sublist (str ''image::'') u"
    by (auto simp: sublist_Cons_right)
  from no_match_across [OF _ Cons.prems] have "image_regex_at (c # u @ s) = None"
    by (simp add: image_regex_at_def)
  with Cons.IH [OF nu Cons.prems(2)] show ?case by simp
qed

lemma replace_at_first_of_line:
  assumes "\<not> sublist (str ''image::'') (last_line pre)" "startsWith s (str ''image::'')"
  shows "replace_image_refs (pre @ s) = replace_image_refs pre @ replace_image_refs s"
proof -
  from last_line_split [of pre] obtain before where
    p: "pre = before @ last_line pre" and b: "before = [] \<or> is_line_terminator (last before)"
    by blast
  have "replace_image_refs (pre @ s) = replace_image_refs (before @ (last_line pre @ s))"
    using p by (metis append_assoc)
  also have "\<dots> = replace_image_refs before @ replace_image_refs (last_line pre @ s)"
    using b by (rule replace_closed)
  also have "replace_image_refs (last_line pre @ s) = last_line pre @ replace_image_refs s"
    using assms by (rule replace_after_plain)
  finally have "replace_image_refs (pre @ s)
      = replace_image_refs before @ last_line pre @ replace_image_refs s" .
  moreover have "replace_image_refs pre = replace_image_refs before @ last_line pre"
    using replace_closed [OF b, of "last_line pre"] replace_without_image [OF assms(1)] p
    by simp
  ultimately show ?thesis by simp
qed

text \<open>
  The backtracking matcher finds exactly the directives of the claims: when the rest
  of the pattern fails after an opening bracket, no closing bracket follows on the
  line, and the pattern fails after every later opening bracket too.
\<close>

lemma up_to_sound:
  "up_to d s = Some (t, r) \<Longrightarrow> s = t @ d # r \<and> d \<notin> set t \<and> (\<forall>c \<in> set t. \<not> is_line_terminator c)"
  by (induction d s arbitrary: t rule: up_to.induct) (auto split: if_splits)

lemma lazy_alt_up_to:
  "lazy_alt acc s = map_option (\<lambda>(t, r). (acc @ t, r)) (up_to rbracket s)"
proof (induction s arbitrary: acc)
  case Nil
  then show ?case by simp
next
  case (Cons c cs)
  show ?case
    by (cases "up_to rbracket cs") (auto simp: Cons.IH)
qed

lemma up_to_rbracket_after:
  "up_to lbracket s = Some (p, s1) \<Longrightarrow> up_to rbracket s = None \<Longrightarrow> up_to rbracket s1 = None"
  by (induction s arbitrary: p)
    (auto simp: lbracket_def rbracket_def is_line_terminator_def split: if_splits)

lemma lazy_path_up_to:
  "lazy_path acc s =
     (case up_to lbracket s of
        None \<Rightarrow> None
      | Some (p, s1) \<Rightarrow>
          (case up_to rbracket s1 of None \<Rightarrow> None | Some (a, r) \<Rightarrow> Some (acc @ p, a, r)))"
proof (induction s arbitrary: acc)
  case Nil
  then show ?case by simp
next
  case (Cons c cs)
  show ?case
  proof (cases "c = lbracket")
    case True
    show ?thesis
    proof (cases "up_to rbracket cs")
      case None
      then have a: "lazy_alt [] cs = None" by (simp add: lazy_alt_up_to)
      have "lazy_path (acc @ [c]) cs = None"
        using up_to_rbracket_after [OF _ None]
        by (auto simp: Cons.IH split: option.splits)
      with True a None show ?thesis
        by (simp add: terminator_not_bracket)
    next
      case (Some x)
      then show ?thesis using True
        by (cases x) (simp add: lazy_alt_up_to)
    qed
  next
    case False
    then show ?thesis
      by (auto simp: Cons.IH split: option.splits)
  qed
qed

lemma image_regex_at_directive_at: "image_regex_at s = directive_at s"
  by (auto simp: image_regex_at_def directive_at_def startsWith_prefix lazy_path_up_to
      split: option.splits)

lemma directive_at_sound:
  assumes "directive_at s = Some (p, a, r)"
  shows "s = str ''image::'' @ p @ lbracket # a @ rbracket # r" "directive_parts p a"
proof -
  from assms have pre: "prefix (str ''image::'') s" by (auto simp: directive_at_def split: if_splits)
  from assms obtain s1 where u: "up_to lbracket (drop 7 s) = Some (p, s1)" "up_to rbracket s1 = Some (a, r)"
    by (auto simp: directive_at_def split: if_splits option.splits)
  from pre have "s = str ''image::'' @ drop 7 s" by (auto simp: prefix_def image_lit)
  with up_to_sound [OF u(1)] up_to_sound [OF u(2)]
  show "s = str ''image::'' @ p @ lbracket # a @ rbracket # r" by simp
  from up_to_sound [OF u(1)] up_to_sound [OF u(2)] show "directive_parts p a"
    by (simp add: directive_parts_def)
qed

lemma replace_directive_segments:
  "s = concat (map source_text (directive_segments s))
   \<and> replace_image_refs s = concat (map merged_text (directive_segments s))
   \<and> (\<forall>p a. Directive p a \<in> set (directive_segments s) \<longrightarrow> directive_parts p a)"
proof (induction s rule: directive_segments.induct)
  case 1
  show ?case by simp
next
  case (2 c cs)
  show ?case
  proof (cases "directive_at (c # cs)")
    case None
    with "2.IH"(1) [OF None] show ?thesis
      by (simp add: image_regex_at_directive_at)
  next
    case (Some x)
    then obtain p a r where x: "x = (p, a, r)" by (cases x)
    note ih = "2.IH"(2) [OF Some x [symmetric] refl]
    from directive_at_sound [of "c # cs" p a r] Some x
    have src: "c # cs = str ''image::'' @ p @ lbracket # a @ rbracket # r" and wf: "directive_parts p a"
      by simp_all
    from Some x have seg: "directive_segments (c # cs) = Directive p a # directive_segments r"
      by simp
    from ih have ih1: "concat (map source_text (directive_segments r)) = r"
      and ih2: "replace_image_refs r = concat (map merged_text (directive_segments r))"
      and ih3: "\<forall>p a. Directive p a \<in> set (directive_segments r) \<longrightarrow> directive_parts p a"
      by simp_all
    have a: "c # cs = concat (map source_text (directive_segments (c # cs)))"
      unfolding seg using src ih1 by simp
    have b: "replace_image_refs (c # cs) = concat (map merged_text (directive_segments (c # cs)))"
      unfolding seg using Some x ih2 by (simp add: image_regex_at_directive_at replacer_def)
    have c: "\<forall>p a. Directive p a \<in> set (directive_segments (c # cs)) \<longrightarrow> directive_parts p a"
      unfolding seg using ih3 wf by auto
    from a b c show ?thesis by blast
  qed
qed

lemma replace_closed_before:
  "closed_before u \<Longrightarrow> startsWith s (str ''image::'') \<Longrightarrow>
     replace_image_refs (u @ s) = replace_image_refs u @ replace_image_refs s"
proof (induction u arbitrary: s rule: closed_before.induct)
  case (plain u)
  then show ?case by (rule replace_at_first_of_line)
next
  case (after_directive u p a v)
  let ?D = "str ''image::'' @ p @ lbracket # a @ rbracket # v"
  from after_directive.hyps(2) have wf: "lbracket \<notin> set p" "\<forall>c \<in> set p. \<not> is_line_terminator c"
    "rbracket \<notin> set a" "\<forall>c \<in> set a. \<not> is_line_terminator c"
    by (simp_all add: directive_parts_def)
  have st: "startsWith (str ''image::'' @ t) (str ''image::'')" for t
    by (simp add: startsWith_def)
  have "replace_image_refs (u @ (str ''image::'' @ p @ lbracket # a @ rbracket # (v @ s)))
      = replace_image_refs u @ replace_image_refs (str ''image::'' @ p @ lbracket # a @ rbracket # (v @ s))"
    by (rule after_directive.IH) (rule st)
  also have "replace_image_refs (str ''image::'' @ p @ lbracket # a @ rbracket # (v @ s))
      = replacer p a @ replace_image_refs (v @ s)"
    using wf by (rule replace_directive)
  also have "replace_image_refs (v @ s) = v @ replace_image_refs s"
    using after_directive.hyps(3) after_directive.prems by (rule replace_after_plain)
  finally have l: "replace_image_refs (u @ (str ''image::'' @ p @ lbracket # a @ rbracket # (v @ s)))
      = replace_image_refs u @ replacer p a @ v @ replace_image_refs s" .
  have "replace_image_refs (u @ ?D) = replace_image_refs u @ replace_image_refs ?D"
    by (rule after_directive.IH) (rule st)
  also have "replace_image_refs ?D = replacer p a @ replace_image_refs v"
    using wf by (rule replace_directive)
  also have "replace_image_refs v = v"
    using after_directive.hyps(3) by (rule replace_without_image)
  finally have r: "replace_image_refs (u @ ?D) = replace_image_refs u @ replacer p a @ v" .
  from l r show ?case by simp
qed

section \<open>Awaiting, and the batch of downloads\<close>


lemma await_Inr:
  "(await m k w = (Inr y, w')) = (\<exists>x w1. m w = (Inr x, w1) \<and> k x w1 = (Inr y, w'))"
  by (auto simp: await_def split: prod.splits sum.splits)

lemma await_Inl:
  "(await m k w = (Inl e, w')) =
     (m w = (Inl e, w') \<or> (\<exists>x w1. m w = (Inr x, w1) \<and> k x w1 = (Inl e, w')))"
  by (auto simp: await_def split: prod.splits sum.splits)

lemma await_resolve [simp]: "await (resolve x) k = k x"
  by (rule ext) (simp add: await_def resolve_def)

lemma external_Inl:
  "reply (length (calls w)) = Inl e \<Longrightarrow>
     external c reply w = (Inl e, w\<lparr>calls := calls w @ [(c, Some e)]\<rparr>)"
  by (simp add: external_def)

lemma external_Inr:
  "reply (length (calls w)) = Inr x \<Longrightarrow>
     external c reply w = (Inr x, w\<lparr>calls := calls w @ [(c, None)]\<rparr>)"
  by (simp add: external_def)

lemma downloadFile_rejected:
  "file_reply E (length (calls w)) = Inl e \<Longrightarrow>
     downloadFile E fileUrl rt w =
       (Inl e,
        w\<lparr>calls := calls w @
              [(AxiosGet fileUrl (Some \<lparr>responseType = rt, family = 4, timeout = 10000\<rparr>), Some e)],
          console := console w @ [Error [Str (str ''Error downloading file:''), Err e]]\<rparr>)"
  by (simp add: downloadFile_def try_catch_def await_def axios_get_def external_Inl
      console_error_def reject_def)

lemma downloadFile_fulfilled:
  "file_reply E (length (calls w)) = Inr data \<Longrightarrow>
     downloadFile E fileUrl rt w =
       (Inr (if rt = str ''arraybuffer'' then data else Text (toString E data)),
        w\<lparr>calls := calls w @
              [(AxiosGet fileUrl (Some \<lparr>responseType = rt, family = 4, timeout = 10000\<rparr>), None)]\<rparr>)"
  by (simp add: downloadFile_def try_catch_def await_def axios_get_def external_Inr resolve_def)

lemma fetchRepoContents_rejected:
  "listing_reply E (length (calls w)) = Inl e \<Longrightarrow>
     fetchRepoContents E folder w =
       (Inl e,
        w\<lparr>calls := calls w @ [(AxiosGet (API_URL @ str ''/'' @ folder) None, Some e)],
          console := console w @ [Error [Str (str ''Error fetching repository contents:''), Err e]]\<rparr>)"
  by (simp add: fetchRepoContents_def try_catch_def await_def axios_get_listing_def external_Inl
      console_error_def reject_def)

lemma fetchRepoContents_fulfilled:
  "listing_reply E (length (calls w)) = Inr data \<Longrightarrow>
     fetchRepoContents E folder w =
       (Inr data, w\<lparr>calls := calls w @ [(AxiosGet (API_URL @ str ''/'' @ folder) None, None)]\<rparr>)"
  by (simp add: fetchRepoContents_def try_catch_def await_def axios_get_listing_def external_Inr
      resolve_def)

lemma join_loop_pos:
  "0 < k \<Longrightarrow> join_loop sep xs k R = R @ concat (map (\<lambda>x. sep @ x) xs)"
  by (induction xs arbitrary: k R) auto

lemma blank_line_joined_Cons:
  "blank_line_joined (x # xs) = x @ concat (map (\<lambda>y. [0x0A, 0x0A] @ y) xs)"
  by (induction xs arbitrary: x) auto

lemma Array_join_blank_line: "Array_join xs [0x0A, 0x0A] = blank_line_joined xs"
proof (cases xs)
  case Nil
  then show ?thesis by (simp add: Array_join_def)
next
  case (Cons x ys)
  then show ?thesis
    by (simp add: Array_join_def join_loop_pos blank_line_joined_Cons del: blank_line_joined.simps)
qed

lemma length_blank_line_joined:
  "length (blank_line_joined xs) = sum_list (map length xs) + 2 * (length xs - 1)"
  by (induction xs rule: blank_line_joined.induct) auto

lemma settle_all_map_Inr: "settle_all (map (\<lambda>i. Inr (f i)) xs) = Inr (map f xs)"
  by (induction xs) auto

lemma utf8_not_arraybuffer: "str ''utf8'' \<noteq> str ''arraybuffer''"
  by (simp add: str_def)

lemma launch_all_downloads_fulfilled:
  "\<forall>i<length files. file_reply E (length (calls w) + i) = Inr (ds i) \<Longrightarrow>
   launch_all (map (\<lambda>file. downloadFile E (downloadUrl file) rt) files) w =
     (map (\<lambda>i. Inr (if rt = str ''arraybuffer'' then ds i else Text (toString E (ds i))))
        [0..<length files],
      w\<lparr>calls := calls w @
          map (\<lambda>file. (AxiosGet (downloadUrl file)
                 (Some \<lparr>responseType = rt, family = 4, timeout = 10000\<rparr>), None)) files\<rparr>)"
proof (induction files arbitrary: w ds)
  case Nil
  then show ?case by simp
next
  case (Cons f files)
  let ?w1 = "w\<lparr>calls := calls w @
      [(AxiosGet (downloadUrl f) (Some \<lparr>responseType = rt, family = 4, timeout = 10000\<rparr>), None)]\<rparr>"
  from Cons.prems have "file_reply E (length (calls w)) = Inr (ds 0)" by force
  then have first: "downloadFile E (downloadUrl f) rt w =
      (Inr (if rt = str ''arraybuffer'' then ds 0 else Text (toString E (ds 0))), ?w1)"
    by (rule downloadFile_fulfilled)
  have "\<forall>i<length files. file_reply E (length (calls ?w1) + i) = Inr (ds (Suc i))"
    using Cons.prems by auto
  from Cons.IH [OF this] first show ?case
    by (simp add: map_upt_Suc del: upt_Suc)
qed

lemma Promise_all_downloads_fulfilled:
  "\<forall>i<length files. file_reply E (length (calls w) + i) = Inr (ds i) \<Longrightarrow>
   Promise_all (map (\<lambda>file. downloadFile E (downloadUrl file) rt) files) w =
     (Inr (map (\<lambda>i. if rt = str ''arraybuffer'' then ds i else Text (toString E (ds i)))
        [0..<length files]),
      w\<lparr>calls := calls w @
          map (\<lambda>file. (AxiosGet (downloadUrl file)
                 (Some \<lparr>responseType = rt, family = 4, timeout = 10000\<rparr>), None)) files\<rparr>)"
  using launch_all_downloads_fulfilled [of files E w ds rt]
  by (simp add: Promise_all_def settle_all_map_Inr)

lemma mergeFiles_fulfilled:
  assumes "\<forall>i<length files. file_reply E (length (calls w) + i) = Inr (ds i)"
  shows "mergeFiles E files w =
     (Inr (blank_line_joined
        (map (\<lambda>i. replace_image_refs (toString E (ds i))) [0..<length files])),
      w\<lparr>calls := calls w @
          map (\<lambda>file. (AxiosGet (downloadUrl file)
                 (Some \<lparr>responseType = str ''utf8'', family = 4, timeout = 10000\<rparr>), None)) files\<rparr>)"
proof -
  have "settle_all (map content_replace (map (\<lambda>i. Text (toString E (ds i))) [0..<length files]))
      = Inr (map (\<lambda>i. replace_image_refs (toString E (ds i))) [0..<length files])"
    by (simp add: content_replace_def comp_def settle_all_map_Inr)
  with Promise_all_downloads_fulfilled [OF assms, of "str ''utf8''"] show ?thesis
    by (simp add: mergeFiles_def await_def utf8_not_arraybuffer resolve_def Array_join_blank_line
        del: map_map)
qed

lemma demo_env_simps:
  "listing_reply (demo_env L F X) = L" "file_reply (demo_env L F X) = F"
  "effect_reply (demo_env L F X) = X" "unread_rejection_fatal (demo_env L F X)"
  by (simp_all add: demo_env_def)

section \<open>The merged document\<close>

text \<open>
  C1. For every sequence of N chapter entries whose downloads are all fulfilled,
  mergeFiles answers one string: the N chapter texts, each with its image paths
  rewritten, in the order of the listing (the request of index \<open>i\<close> is for the entry of
  index \<open>i\<close>, and its text is the document of index \<open>i\<close>), with one blank line, two line
  feeds, between adjacent documents. The merged document holds N documents and N - 1
  separators.
\<close>

theorem C1_mergeFiles_joins_in_listing_order:
  assumes "\<forall>i<length files. file_reply E (length (calls w) + i) = Inr (ds i)"
  shows "let docs = map (\<lambda>i. replace_image_refs (toString E (ds i))) [0..<length files]
     in mergeFiles E files w =
          (Inr (blank_line_joined docs),
           w\<lparr>calls := calls w @
               map (\<lambda>file. (AxiosGet (downloadUrl file)
                      (Some \<lparr>responseType = str ''utf8'', family = 4, timeout = 10000\<rparr>), None))
                 files\<rparr>)
        \<and> length docs = length files
        \<and> Array_join docs [0x0A, 0x0A] = blank_line_joined docs
        \<and> length (blank_line_joined docs) = sum_list (map length docs) + 2 * (length files - 1)"
  using mergeFiles_fulfilled [OF assms] length_blank_line_joined
    [of "map (\<lambda>i. replace_image_refs (toString E (ds i))) [0..<length files]"]
  by (simp add: Let_def Array_join_blank_line)

theorem C1_witness:
  "fst (mergeFiles
      (demo_env (\<lambda>k. Inr [])
         (\<lambda>k. Inr (Text (if k = 0 then str ''image::images/a.png[A]'' else str ''two''))) (\<lambda>k. Inr ()))
      [chapter_file ''u1'', chapter_file ''u2''] empty_world)
   = Inr (str ''image::a.png[A]'' @ [0x0A, 0x0A] @ str ''two'')"
  using C1_mergeFiles_joins_in_listing_order
    [of "[chapter_file ''u1'', chapter_file ''u2'']"
        "demo_env (\<lambda>k. Inr [])
         (\<lambda>k. Inr (Text (if k = 0 then str ''image::images/a.png[A]'' else str ''two''))) (\<lambda>k. Inr ())"
        empty_world
        "\<lambda>k. Text (if k = 0 then str ''image::images/a.png[A]'' else str ''two'')"]
  by (simp add: demo_env_simps empty_world_def Let_def toString_def str_def
      image_regex_at_def startsWith_def replacer_def cleanImagePath_def lbracket_def rbracket_def
      is_line_terminator_def upt_rec)

lemma sublist_blank_line_joined: "x \<in> set xs \<Longrightarrow> sublist x (blank_line_joined xs)"
proof (induction xs rule: blank_line_joined.induct)
  case 1
  then show ?case by simp
next
  case (2 x)
  then show ?case by simp
next
  case (3 y z zs)
  show ?case
  proof (cases "x = y")
    case True
    then show ?thesis by simp
  next
    case False
    with "3.prems" have "sublist x (blank_line_joined (z # zs))" using "3.IH" by simp
    then obtain ps ss where "blank_line_joined (z # zs) = ps @ x @ ss"
      by (auto simp: sublist_def)
    then have "blank_line_joined (y # z # zs) = (y @ [0x0A, 0x0A] @ ps) @ x @ ss" by simp
    then show ?thesis unfolding sublist_def by blast
  qed
qed

lemma cleanImagePath_images: "cleanImagePath (str ''images/'' @ foo) = foo"
  by (simp add: cleanImagePath_def startsWith_def images_lit)

lemma mergeFiles_single:
  "fst (mergeFiles (demo_env L (\<lambda>k. Inr (Text t)) X) [f] empty_world) = Inr (replace_image_refs t)"
  using mergeFiles_fulfilled [of "[f]" "demo_env L (\<lambda>k. Inr (Text t)) X" empty_world "\<lambda>k. Text t"]
  by (simp add: demo_env_simps toString_def)

text \<open>
  C10. For every chapter text, mergeFiles changes nothing outside the directives
  \<^verbatim>\<open>image::<path>[<alt>]\<close>. Cut from left to right into its directives and the code
  units outside them, the chapter has as its document in the merge the same pieces in
  the same order, each code unit outside a directive as it was, and each directive
  with its path cleaned and the rest kept. The directives of the cut stand on one line
  each, with the path up to the first opening bracket and the alternative text up to
  the first closing bracket: a text that only looks like a directive, such as an
  \<^verbatim>\<open>image::\<close> with no pair of brackets after it on its line, is outside and is kept.
  In particular a chapter without the substring \<^verbatim>\<open>image::\<close> stands verbatim in the
  merged document.
\<close>

theorem C10_text_outside_directives_unchanged:
  assumes "\<forall>i<length files. file_reply E (length (calls w) + i) = Inr (ds i)"
  shows "\<exists>docs w'. mergeFiles E files w = (Inr (blank_line_joined docs), w')
     \<and> length docs = length files
     \<and> (\<forall>i<length files.
          toString E (ds i) = concat (map source_text (directive_segments (toString E (ds i))))
          \<and> docs ! i = concat (map merged_text (directive_segments (toString E (ds i))))
          \<and> (\<forall>imagePath alt.
                Directive imagePath alt \<in> set (directive_segments (toString E (ds i))) \<longrightarrow>
                  directive_parts imagePath alt)
          \<and> sublist (docs ! i) (blank_line_joined docs)
          \<and> (\<not> sublist (str ''image::'') (toString E (ds i)) \<longrightarrow> docs ! i = toString E (ds i)))"
proof -
  let ?docs = "map (\<lambda>i. replace_image_refs (toString E (ds i))) [0..<length files]"
  obtain w' where w': "mergeFiles E files w = (Inr (blank_line_joined ?docs), w')"
    using mergeFiles_fulfilled [OF assms] by blast
  have len: "length ?docs = length files" by simp
  have per: "\<forall>i<length files.
          toString E (ds i) = concat (map source_text (directive_segments (toString E (ds i))))
          \<and> ?docs ! i = concat (map merged_text (directive_segments (toString E (ds i))))
          \<and> (\<forall>imagePath alt.
                Directive imagePath alt \<in> set (directive_segments (toString E (ds i))) \<longrightarrow>
                  directive_parts imagePath alt)
          \<and> sublist (?docs ! i) (blank_line_joined ?docs)
          \<and> (\<not> sublist (str ''image::'') (toString E (ds i)) \<longrightarrow> ?docs ! i = toString E (ds i))"
  proof (intro allI impI conjI)
    fix i assume i: "i < length files"
    then have d: "?docs ! i = replace_image_refs (toString E (ds i))" by simp
    note cut = replace_directive_segments [of "toString E (ds i)"]
    from cut show "toString E (ds i)
        = concat (map source_text (directive_segments (toString E (ds i))))"
      by (rule conjunct1)
    from cut show "?docs ! i = concat (map merged_text (directive_segments (toString E (ds i))))"
      by (simp only: d)
    have "?docs ! i \<in> set ?docs"
      by (rule nth_mem) (simp add: i)
    then show "sublist (?docs ! i) (blank_line_joined ?docs)"
      by (rule sublist_blank_line_joined)
    {
      fix imagePath alt
      assume "Directive imagePath alt \<in> set (directive_segments (toString E (ds i)))"
      with cut show "directive_parts imagePath alt" by blast
    }
    assume "\<not> sublist (str ''image::'') (toString E (ds i))"
    from replace_without_image [OF this] show "?docs ! i = toString E (ds i)"
      by (simp only: d)
  qed
  show ?thesis
  proof (intro exI conjI)
    show "mergeFiles E files w = (Inr (blank_line_joined ?docs), w')" by (rule w')
    show "length ?docs = length files" by (rule len)
    show "\<forall>i<length files.
          toString E (ds i) = concat (map source_text (directive_segments (toString E (ds i))))
          \<and> ?docs ! i = concat (map merged_text (directive_segments (toString E (ds i))))
          \<and> (\<forall>imagePath alt.
                Directive imagePath alt \<in> set (directive_segments (toString E (ds i))) \<longrightarrow>
                  directive_parts imagePath alt)
          \<and> sublist (?docs ! i) (blank_line_joined ?docs)
          \<and> (\<not> sublist (str ''image::'') (toString E (ds i)) \<longrightarrow> ?docs ! i = toString E (ds i))"
      by (rule per)
  qed
qed

theorem C10_witness:
  "\<exists>docs w'.
     mergeFiles
       (demo_env (\<lambda>k. Inr [])
          (\<lambda>k. Inr (Text (str ''image::images/a.png'' @ [0x0A] @ str ''See [1].'' @ [0x0A]
                              @ str ''x image::images/b.png[B] y'')))
          (\<lambda>k. Inr ()))
       [chapter_file ''u1''] empty_world = (Inr (blank_line_joined docs), w')
     \<and> docs ! 0 = str ''image::images/a.png'' @ [0x0A] @ str ''See [1].'' @ [0x0A]
                     @ str ''x image::b.png[B] y''"
proof -
  let ?t = "str ''image::images/a.png'' @ [0x0A] @ str ''See [1].'' @ [0x0A]
      @ str ''x image::images/b.png[B] y''"
  let ?E = "demo_env (\<lambda>k. Inr []) (\<lambda>k. Inr (Text ?t)) (\<lambda>k. Inr ())"
  have ok: "\<forall>i<length [chapter_file ''u1'']. file_reply ?E (length (calls empty_world) + i)
      = Inr (Text ?t)"
    by (simp add: demo_env_simps)
  have cut: "concat (map merged_text (directive_segments ?t))
      = str ''image::images/a.png'' @ [0x0A] @ str ''See [1].'' @ [0x0A] @ str ''x image::b.png[B] y''"
    by (simp add: str_def directive_at_def cleanImagePath_def startsWith_def
        lbracket_def rbracket_def is_line_terminator_def)
  from C10_text_outside_directives_unchanged [OF ok] obtain docs w' where
    m: "mergeFiles ?E [chapter_file ''u1''] empty_world = (Inr (blank_line_joined docs), w')"
    and per: "\<forall>i<length [chapter_file ''u1''].
          docs ! i = concat (map merged_text (directive_segments (toString ?E (Text ?t))))"
    by blast
  from per cut have "docs ! 0 = str ''image::images/a.png'' @ [0x0A] @ str ''See [1].'' @ [0x0A]
      @ str ''x image::b.png[B] y''"
    by (simp add: toString_def)
  with m show ?thesis by blast
qed

text \<open>
  C2, as amended. An image directive \<^verbatim>\<open>image::<path>[<alt>]\<close> of a chapter, with no
  opening bracket in the path, no closing bracket in the alternative text and no line
  terminator in either, that is not inside an earlier directive is replaced in place by
  \<^verbatim>\<open>image::<path'>[<alt>]\<close>, where \<^verbatim>\<open><path'>\<close> is the path without one leading
  \<^verbatim>\<open>images/\<close> (the path itself when it has none) and the alternative text is kept; the
  text before it and the text after it are rewritten on their own. It is not inside
  an earlier directive when the text before it leaves no directive open
  (\<open>closed_before\<close>): every directive that begins a line, and every directive that
  follows complete directives of its line, are such. So such an
  \<^verbatim>\<open>image::images/foo.png[Alt text]\<close> stands as \<^verbatim>\<open>image::foo.png[Alt text]\<close> in the merged
  document.
\<close>

theorem C2_directive_outside_earlier_ones_rewritten:
  assumes ok: "\<forall>i<length files. file_reply E (length (calls w) + i) = Inr (ds i)"
    and i: "i < length files"
    and shape: "toString E (ds i) =
        pre @ str ''image::'' @ imagePath @ [lbracket] @ alt @ [rbracket] @ post"
    and pre: "closed_before pre"
    and parts: "directive_parts imagePath alt"
  shows "\<exists>docs w'. mergeFiles E files w = (Inr (blank_line_joined docs), w')
     \<and> length docs = length files
     \<and> docs ! i = replace_image_refs pre
          @ str ''image::'' @ cleanImagePath imagePath @ [lbracket] @ alt @ [rbracket]
          @ replace_image_refs post
     \<and> sublist (str ''image::'' @ cleanImagePath imagePath @ [lbracket] @ alt @ [rbracket])
          (blank_line_joined docs)
     \<and> cleanImagePath (str ''images/'' @ foo) = foo
     \<and> (\<not> startsWith imagePath (str ''images/'') \<longrightarrow> cleanImagePath imagePath = imagePath)"
proof -
  let ?docs = "map (\<lambda>i. replace_image_refs (toString E (ds i))) [0..<length files]"
  let ?new = "str ''image::'' @ cleanImagePath imagePath @ [lbracket] @ alt @ [rbracket]"
  obtain w' where w': "mergeFiles E files w = (Inr (blank_line_joined ?docs), w')"
    using mergeFiles_fulfilled [OF ok] by blast
  have len: "length ?docs = length files" by simp
  from i have d: "?docs ! i = replace_image_refs (toString E (ds i))" by simp
  from parts have path: "lbracket \<notin> set imagePath" "\<forall>c \<in> set imagePath. \<not> is_line_terminator c"
    and alt: "rbracket \<notin> set alt" "\<forall>c \<in> set alt. \<not> is_line_terminator c"
    by (simp_all add: directive_parts_def)
  have "startsWith (str ''image::'' @ imagePath @ lbracket # alt @ rbracket # post) (str ''image::'')"
    by (simp add: startsWith_def)
  from replace_closed_before [OF pre this]
  have "replace_image_refs (toString E (ds i)) =
      replace_image_refs pre
        @ replace_image_refs (str ''image::'' @ imagePath @ lbracket # alt @ rbracket # post)"
    using shape by simp
  also have "replace_image_refs (str ''image::'' @ imagePath @ lbracket # alt @ rbracket # post)
      = replacer imagePath alt @ replace_image_refs post"
    using path alt by (rule replace_directive)
  finally have at: "?docs ! i = replace_image_refs pre @ ?new @ replace_image_refs post"
    by (simp only: d replacer_def append_assoc)
  have "?docs ! i \<in> set ?docs"
    by (rule nth_mem) (simp add: i)
  then have "sublist (?docs ! i) (blank_line_joined ?docs)"
    by (rule sublist_blank_line_joined)
  moreover have "sublist ?new (?docs ! i)"
    unfolding at by (rule sublist_appendI)
  ultimately have sub: "sublist ?new (blank_line_joined ?docs)"
    by (rule sublist_order.order.trans [rotated])
  have keep: "\<not> startsWith imagePath (str ''images/'') \<longrightarrow> cleanImagePath imagePath = imagePath"
    by (simp add: cleanImagePath_def)
  show ?thesis
  proof (intro exI conjI)
    show "mergeFiles E files w = (Inr (blank_line_joined ?docs), w')" by (rule w')
    show "length ?docs = length files" by (rule len)
    show "?docs ! i = replace_image_refs pre
          @ str ''image::'' @ cleanImagePath imagePath @ [lbracket] @ alt @ [rbracket]
          @ replace_image_refs post"
      using at by simp
    show "sublist ?new (blank_line_joined ?docs)" by (rule sub)
    show "cleanImagePath (str ''images/'' @ foo) = foo" by (rule cleanImagePath_images)
    show "\<not> startsWith imagePath (str ''images/'') \<longrightarrow> cleanImagePath imagePath = imagePath"
      by (rule keep)
  qed
qed

text \<open>
  The second directive of a line, after a complete one: both are rewritten.
\<close>

theorem C2_witness:
  "\<exists>docs w'.
     mergeFiles
       (demo_env (\<lambda>k. Inr [])
          (\<lambda>k. Inr (Text (str ''Intro'' @ [0x0A]
                              @ str ''image::images/a.png[x] and image::images/foo.png[Alt text]''
                              @ [0x0A] @ str ''more'')))
          (\<lambda>k. Inr ()))
       [chapter_file ''u1''] empty_world = (Inr (blank_line_joined docs), w')
     \<and> docs ! 0 = str ''Intro'' @ [0x0A] @ str ''image::a.png[x] and image::foo.png[Alt text]''
                     @ [0x0A] @ str ''more''
     \<and> sublist (str ''image::foo.png[Alt text]'') (blank_line_joined docs)"
proof -
  let ?t = "str ''Intro'' @ [0x0A]
      @ str ''image::images/a.png[x] and image::images/foo.png[Alt text]'' @ [0x0A] @ str ''more''"
  let ?E = "demo_env (\<lambda>k. Inr []) (\<lambda>k. Inr (Text ?t)) (\<lambda>k. Inr ())"
  let ?u = "str ''Intro'' @ [0x0A]"
  let ?pre = "?u @ str ''image::'' @ str ''images/a.png'' @ [lbracket] @ str ''x'' @ [rbracket]
      @ str '' and ''"
  have ok: "\<forall>i<length [chapter_file ''u1'']. file_reply ?E (length (calls empty_world) + i) = Inr (Text ?t)"
    by (simp add: demo_env_simps)
  have shape: "toString ?E (Text ?t) =
      ?pre @ str ''image::'' @ str ''images/foo.png'' @ [lbracket]
        @ str ''Alt text'' @ [rbracket] @ ([0x0A] @ str ''more'')"
    by (simp add: toString_def str_def lbracket_def rbracket_def)
  have "last_line ?u = []"
    by (simp add: last_line_def str_def is_line_terminator_def)
  then have "closed_before ?u"
    by (intro closed_before.plain) (simp add: image_lit)
  moreover have "directive_parts (str ''images/a.png'') (str ''x'')"
    by (simp add: directive_parts_def str_def lbracket_def rbracket_def is_line_terminator_def)
  moreover have "\<not> sublist (str ''image::'') (str '' and '')"
    by (simp add: str_def sublist_Cons_right)
  ultimately have pre: "closed_before ?pre"
    by (rule closed_before.after_directive)
  have parts: "directive_parts (str ''images/foo.png'') (str ''Alt text'')"
    by (simp add: directive_parts_def str_def lbracket_def rbracket_def is_line_terminator_def)
  have new: "str ''image::'' @ cleanImagePath (str ''images/foo.png'') @ [lbracket]
      @ str ''Alt text'' @ [rbracket] = str ''image::foo.png[Alt text]''"
    by (simp add: cleanImagePath_def startsWith_def str_def lbracket_def rbracket_def)
  have before: "replace_image_refs ?pre = str ''Intro'' @ [0x0A] @ str ''image::a.png[x] and ''"
    by (simp add: str_def image_regex_at_def startsWith_def replacer_def cleanImagePath_def
        lbracket_def rbracket_def is_line_terminator_def)
  have after: "replace_image_refs ([0x0A] @ str ''more'') = [0x0A] @ str ''more''"
    by (simp add: str_def image_regex_at_def startsWith_def)
  have i0: "0 < length [chapter_file ''u1'']" by simp
  from C2_directive_outside_earlier_ones_rewritten [where foo = "[]", OF ok i0 shape pre parts]
  obtain docs w' where
    m: "mergeFiles ?E [chapter_file ''u1''] empty_world = (Inr (blank_line_joined docs), w')"
    and d: "docs ! 0 = replace_image_refs ?pre
        @ str ''image::'' @ cleanImagePath (str ''images/foo.png'') @ [lbracket]
        @ str ''Alt text'' @ [rbracket] @ replace_image_refs ([0x0A] @ str ''more'')"
    and sub: "sublist (str ''image::'' @ cleanImagePath (str ''images/foo.png'') @ [lbracket]
      @ str ''Alt text'' @ [rbracket]) (blank_line_joined docs)"
    by blast
  from d have "docs ! 0 = str ''Intro'' @ [0x0A] @ str ''image::a.png[x] and image::foo.png[Alt text]''
      @ [0x0A] @ str ''more''"
    unfolding before after by (simp add: cleanImagePath_def startsWith_def str_def lbracket_def rbracket_def)
  moreover from sub have "sublist (str ''image::foo.png[Alt text]'') (blank_line_joined docs)"
    by (simp only: new)
  ultimately show ?thesis using m by blast
qed

text \<open>
  C2 as it was stated fails: a directive inside the alternative text of an earlier
  directive of its line is part of that earlier match and is not rewritten, so the
  merged document lacks the stripped form and keeps the original; and a path
  \<^verbatim>\<open>images/images/foo.png\<close> loses one prefix only, which leaves the images/-prefixed
  form in the merged document next to a directive that was rewritten.
\<close>

theorem C2_counterexample:
  "sublist (str ''image::images/foo.png[Alt text]'')
     (str ''image::a.png[see image::images/foo.png[Alt text]]'')
   \<and> fst (mergeFiles
        (demo_env (\<lambda>k. Inr [])
           (\<lambda>k. Inr (Text (str ''image::a.png[see image::images/foo.png[Alt text]]'')))
           (\<lambda>k. Inr ()))
        [chapter_file ''u1''] empty_world)
      = Inr (str ''image::a.png[see image::images/foo.png[Alt text]]'')
   \<and> \<not> sublist (str ''image::foo.png[Alt text]'')
       (str ''image::a.png[see image::images/foo.png[Alt text]]'')
   \<and> fst (mergeFiles
        (demo_env (\<lambda>k. Inr [])
           (\<lambda>k. Inr (Text (str ''image::images/images/foo.png[Alt text]'' @ [0x0A]
                               @ str ''image::images/foo.png[Alt text]'')))
           (\<lambda>k. Inr ()))
        [chapter_file ''u1''] empty_world)
      = Inr (str ''image::images/foo.png[Alt text]'' @ [0x0A] @ str ''image::foo.png[Alt text]'')
   \<and> sublist (str ''image::images/foo.png[Alt text]'')
       (str ''image::images/foo.png[Alt text]'' @ [0x0A] @ str ''image::foo.png[Alt text]'')"
proof (intro conjI)
  have "str ''image::a.png[see image::images/foo.png[Alt text]]''
      = str ''image::a.png[see '' @ str ''image::images/foo.png[Alt text]'' @ str '']''"
    by (simp add: str_def)
  then show "sublist (str ''image::images/foo.png[Alt text]'')
     (str ''image::a.png[see image::images/foo.png[Alt text]]'')"
    by (simp only: sublist_appendI)
  show "fst (mergeFiles
        (demo_env (\<lambda>k. Inr [])
           (\<lambda>k. Inr (Text (str ''image::a.png[see image::images/foo.png[Alt text]]'')))
           (\<lambda>k. Inr ()))
        [chapter_file ''u1''] empty_world)
      = Inr (str ''image::a.png[see image::images/foo.png[Alt text]]'')"
    unfolding mergeFiles_single
    by (simp add: str_def image_regex_at_def startsWith_def replacer_def cleanImagePath_def
        lbracket_def rbracket_def is_line_terminator_def)
  show "\<not> sublist (str ''image::foo.png[Alt text]'')
       (str ''image::a.png[see image::images/foo.png[Alt text]]'')"
    by (simp add: str_def sublist_Cons_right)
  show "fst (mergeFiles
        (demo_env (\<lambda>k. Inr [])
           (\<lambda>k. Inr (Text (str ''image::images/images/foo.png[Alt text]'' @ [0x0A]
                               @ str ''image::images/foo.png[Alt text]'')))
           (\<lambda>k. Inr ()))
        [chapter_file ''u1''] empty_world)
      = Inr (str ''image::images/foo.png[Alt text]'' @ [0x0A] @ str ''image::foo.png[Alt text]'')"
    unfolding mergeFiles_single
    by (simp add: str_def image_regex_at_def startsWith_def replacer_def cleanImagePath_def
        lbracket_def rbracket_def is_line_terminator_def)
  show "sublist (str ''image::images/foo.png[Alt text]'')
       (str ''image::images/foo.png[Alt text]'' @ [0x0A] @ str ''image::foo.png[Alt text]'')"
    by (rule sublist_append_rightI)
qed


section \<open>The asset fetcher\<close>

text \<open>
  C6. For every URL and every response-type hint, downloadFile issues one request
  with the hint, the IPv4 family (\<open>family = 4\<close>) and a timeout of 10000 milliseconds.
  It answers the raw data when the hint is \<^verbatim>\<open>'arraybuffer'\<close>, and the data as text
  otherwise: a string as it is, and a buffer of bytes decoded by the library as
  UTF-8. A rejected request is logged and rejected again with the same error.
\<close>

theorem C6_downloadFile_request_and_result:
  "downloadFile E fileUrl rt w =
     (case file_reply E (length (calls w)) of
        Inl e \<Rightarrow>
          (Inl e,
           w\<lparr>calls := calls w @
                 [(AxiosGet fileUrl (Some \<lparr>responseType = rt, family = 4, timeout = 10000\<rparr>), Some e)],
             console := console w @ [Error [Str (str ''Error downloading file:''), Err e]]\<rparr>)
      | Inr data \<Rightarrow>
          (Inr (if rt = str ''arraybuffer'' then data
                else (case data of Text s \<Rightarrow> Text s | Bytes b \<Rightarrow> Text (utf8_decode E b))),
           w\<lparr>calls := calls w @
                 [(AxiosGet fileUrl (Some \<lparr>responseType = rt, family = 4, timeout = 10000\<rparr>), None)]\<rparr>))
   \<and> toString E (Text s) = s
   \<and> toString E (Bytes b) = utf8_decode E b"
  by (cases "file_reply E (length (calls w))")
    (simp_all add: downloadFile_rejected downloadFile_fulfilled toString_def split: payload.splits)

text \<open>
  A text asked for as text, a buffer asked for as raw bytes, and a buffer asked for as
  text.
\<close>

theorem C6_witness:
  "downloadFile (demo_env (\<lambda>k. Inr []) (\<lambda>k. Inr (Text (str ''abc''))) (\<lambda>k. Inr ()))
     (str ''u'') (str ''utf8'') empty_world =
     (Inr (Text (str ''abc'')),
      \<lparr>calls = [(AxiosGet (str ''u'')
                   (Some \<lparr>responseType = str ''utf8'', family = 4, timeout = 10000\<rparr>), None)],
       fs = {}, console = [], ended = None\<rparr>)
   \<and> downloadFile (demo_env (\<lambda>k. Inr []) (\<lambda>k. Inr (Bytes [0x68, 0x69])) (\<lambda>k. Inr ()))
     (str ''u'') (str ''arraybuffer'') empty_world =
     (Inr (Bytes [0x68, 0x69]),
      \<lparr>calls = [(AxiosGet (str ''u'')
                   (Some \<lparr>responseType = str ''arraybuffer'', family = 4, timeout = 10000\<rparr>), None)],
       fs = {}, console = [], ended = None\<rparr>)
   \<and> fst (downloadFile (demo_env (\<lambda>k. Inr []) (\<lambda>k. Inr (Bytes [0x68, 0x69])) (\<lambda>k. Inr ()))
     (str ''u'') (str ''utf8'') empty_world) = Inr (Text (str ''hi''))"
  using C6_downloadFile_request_and_result
    [of "demo_env (\<lambda>k. Inr []) (\<lambda>k. Inr (Text (str ''abc''))) (\<lambda>k. Inr ())"
        "str ''u''" "str ''utf8''" empty_world]
    C6_downloadFile_request_and_result
    [of "demo_env (\<lambda>k. Inr []) (\<lambda>k. Inr (Bytes [0x68, 0x69])) (\<lambda>k. Inr ())"
        "str ''u''" "str ''arraybuffer''" empty_world]
    C6_downloadFile_request_and_result
    [of "demo_env (\<lambda>k. Inr []) (\<lambda>k. Inr (Bytes [0x68, 0x69])) (\<lambda>k. Inr ())"
        "str ''u''" "str ''utf8''" empty_world]
  by (simp add: demo_env_def empty_world_def str_def)

lemma await_Inl_result: "m w = (Inl e, w1) \<Longrightarrow> await m k w = (Inl e, w1)"
  by (simp add: await_def)

lemma await_Inr_result: "m w = (Inr x, w1) \<Longrightarrow> await m k w = k x w1"
  by (simp add: await_def)

lemma fs_ensureDir_fulfilled:
  "effect_reply E (length (calls w)) = Inr () \<Longrightarrow>
     fs_ensureDir E p w =
       (Inr (), w\<lparr>calls := calls w @ [(FsEnsureDir p, None)], fs := fs w \<union> set (prefixes p)\<rparr>)"
  by (simp add: fs_ensureDir_def fs_effect_def await_def external_Inr)

lemma rejected_listing_run:
  "main_try (demo_env (\<lambda>k. Inl e) F (\<lambda>k. Inr ())) empty_world =
     (Inl e,
      \<lparr>calls = [(FsEnsureDir TEMP_DIR, None), (AxiosGet (API_URL @ str ''/code'') None, Some e)],
       fs = set (prefixes TEMP_DIR),
       console =
         [Log [Str (str ''Creating temporary directory...'')],
          Log [Str (str ''Processing code files...'')],
          Log [Str (str ''Processing image files...'')],
          Log [Str (str ''Processing chapter files...'')],
          Error [Str (str ''Error fetching repository contents:''), Err e]],
       ended = None\<rparr>)"
proof -
  have s: "str ''/'' @ str ''code'' = str ''/code''"
    by (simp add: str_def)
  have "stage_assets (demo_env (\<lambda>k. Inl e) F (\<lambda>k. Inr ())) empty_world =
     (Inl e,
      \<lparr>calls = [(FsEnsureDir TEMP_DIR, None), (AxiosGet (API_URL @ str ''/code'') None, Some e)],
       fs = set (prefixes TEMP_DIR),
       console =
         [Log [Str (str ''Creating temporary directory...'')],
          Log [Str (str ''Processing code files...'')],
          Log [Str (str ''Processing image files...'')],
          Log [Str (str ''Processing chapter files...'')],
          Error [Str (str ''Error fetching repository contents:''), Err e]],
       ended = None\<rparr>)"
    by (simp add: stage_assets_def await_def console_log_def fs_ensureDir_fulfilled
        getCodeFiles_def fetchRepoContents_rejected demo_env_simps empty_world_def s)
  then show ?thesis
    by (simp add: main_try_def await_def)
qed

section \<open>The selectors\<close>

text \<open>
  C5. For every listing, the chapter selector answers exactly the entries whose name
  starts with \<^verbatim>\<open>ch\<close> and ends with \<^verbatim>\<open>.adoc\<close>, in the order of the listing, each as its
  name and download URL; the code and image selectors answer all the entries of the
  folders \<^verbatim>\<open>code\<close> and \<^verbatim>\<open>images\<close>. The only effect of a selector is its one listing
  request (and the log line of a rejected request): the filtering has none.
\<close>

theorem C5_selectors:
  "getChapterFiles E w =
     (case listing_reply E (length (calls w)) of
        Inl e \<Rightarrow>
          (Inl e,
           w\<lparr>calls := calls w @ [(AxiosGet (API_URL @ str ''/'') None, Some e)],
             console := console w @ [Error [Str (str ''Error fetching repository contents:''), Err e]]\<rparr>)
      | Inr listing \<Rightarrow>
          (Inr (map to_remote_file
                 (filter (\<lambda>file. prefix (str ''ch'') (entry_name file)
                            \<and> suffix (str ''.adoc'') (entry_name file)) listing)),
           w\<lparr>calls := calls w @ [(AxiosGet (API_URL @ str ''/'') None, None)]\<rparr>))
   \<and> getCodeFiles E w =
     (case listing_reply E (length (calls w)) of
        Inl e \<Rightarrow>
          (Inl e,
           w\<lparr>calls := calls w @ [(AxiosGet (API_URL @ str ''/code'') None, Some e)],
             console := console w @ [Error [Str (str ''Error fetching repository contents:''), Err e]]\<rparr>)
      | Inr listing \<Rightarrow>
          (Inr (map to_remote_file listing),
           w\<lparr>calls := calls w @ [(AxiosGet (API_URL @ str ''/code'') None, None)]\<rparr>))
   \<and> getImageFiles E w =
     (case listing_reply E (length (calls w)) of
        Inl e \<Rightarrow>
          (Inl e,
           w\<lparr>calls := calls w @ [(AxiosGet (API_URL @ str ''/images'') None, Some e)],
             console := console w @ [Error [Str (str ''Error fetching repository contents:''), Err e]]\<rparr>)
      | Inr listing \<Rightarrow>
          (Inr (map to_remote_file listing),
           w\<lparr>calls := calls w @ [(AxiosGet (API_URL @ str ''/images'') None, None)]\<rparr>))
   \<and> name (to_remote_file file) = entry_name file
   \<and> downloadUrl (to_remote_file file) = download_url file"
proof -
  have s: "str ''/'' @ str ''code'' = str ''/code''" "str ''/'' @ str ''images'' = str ''/images''"
    by (simp_all add: str_def)
  show ?thesis
  proof (cases "listing_reply E (length (calls w))")
    case (Inl e)
    then show ?thesis
      by (simp add: getChapterFiles_def getCodeFiles_def getImageFiles_def
          fetchRepoContents_rejected [OF Inl] await_def to_remote_file_def s)
  next
    case (Inr listing)
    then show ?thesis
      by (simp add: getChapterFiles_def getCodeFiles_def getImageFiles_def
          fetchRepoContents_fulfilled [OF Inr] await_def resolve_def to_remote_file_def s
          startsWith_prefix endsWith_suffix)
  qed
qed

section \<open>Failures\<close>

lemma unread_rejection_run:
  "stage_assets
     (demo_env
        (\<lambda>k. if k = 1 then Inr [\<lparr>entry_name = str ''a.py'', download_url = str ''u''\<rparr>] else Inr [])
        (\<lambda>k. Inl e) (\<lambda>k. Inr ()))
     empty_world =
     (Inl e,
      \<lparr>calls = [(FsEnsureDir TEMP_DIR, None), (AxiosGet (API_URL @ str ''/code'') None, None),
                (AxiosGet (str ''u'')
                   (Some \<lparr>responseType = str ''utf8'', family = 4, timeout = 10000\<rparr>), Some e)],
       fs = set (prefixes TEMP_DIR),
       console =
         [Log [Str (str ''Creating temporary directory...'')],
          Log [Str (str ''Processing code files...'')],
          Log [Str (str ''Processing image files...'')],
          Log [Str (str ''Processing chapter files...'')],
          Error [Str (str ''Error downloading file:''), Err e]],
       ended = Some e\<rparr>)"
proof -
  have s: "str ''/'' @ str ''code'' = str ''/code''"
    by (simp add: str_def)
  show ?thesis
    by (simp add: stage_assets_def await_def launch_def unread_def console_log_def
        fs_ensureDir_fulfilled getCodeFiles_def fetchRepoContents_fulfilled resolve_def
        createCodeFiles_def Promise_all_def downloadFile_rejected to_remote_file_def
        demo_env_simps empty_world_def s)
qed

text \<open>
  C7. A rejected listing or download request is logged where it happens and thrown
  again as the same error value, after the one request: nothing is retried
  (\<open>fetchRepoContents_rejected\<close> and \<open>downloadFile_rejected\<close> above). An error thrown
  in the \<^verbatim>\<open>try\<close> block of main is logged by the handler of main and swallowed. But
  the code does not bring every error to that handler. The promise of
  \<^verbatim>\<open>createCodeFiles(await getCodeFiles())\<close> gets its reader, \<^verbatim>\<open>Promise.all\<close>, only
  after \<^verbatim>\<open>await getImageFiles()\<close>; the promises of \<^verbatim>\<open>createImageFiles\<close> and
  \<^verbatim>\<open>getChapterFiles\<close>, next to it in the array, get theirs at once. Below, the listing
  of the folder \<^verbatim>\<open>code\<close> answers one file, and its download is rejected while main
  waits for the listing of the images. On a runtime that ends the process on an
  unhandled rejection the run ends there: the handler of main logs nothing, and main
  is never fulfilled. On a runtime that goes on, the same error reaches the handler:
  the last line of the console is the one of the handler, and main is fulfilled.
\<close>

theorem C7_unread_rejection_misses_the_handler:
  "main
     (demo_env
        (\<lambda>k. if k = 1 then Inr [\<lparr>entry_name = str ''a.py'', download_url = str ''u''\<rparr>] else Inr [])
        (\<lambda>k. Inl (RemoteFetchError 3)) (\<lambda>k. Inr ()))
     empty_world =
     (Inl (RemoteFetchError 3),
      \<lparr>calls = [(FsEnsureDir TEMP_DIR, None), (AxiosGet (API_URL @ str ''/code'') None, None),
                (AxiosGet (str ''u'')
                   (Some \<lparr>responseType = str ''utf8'', family = 4, timeout = 10000\<rparr>),
                 Some (RemoteFetchError 3))],
       fs = set (prefixes TEMP_DIR),
       console =
         [Log [Str (str ''Creating temporary directory...'')],
          Log [Str (str ''Processing code files...'')],
          Log [Str (str ''Processing image files...'')],
          Log [Str (str ''Processing chapter files...'')],
          Error [Str (str ''Error downloading file:''), Err (RemoteFetchError 3)]],
       ended = Some (RemoteFetchError 3)\<rparr>)
   \<and> fst (main
        ((demo_env
            (\<lambda>k. if k = 1 then Inr [\<lparr>entry_name = str ''a.py'', download_url = str ''u''\<rparr>]
                  else Inr [])
            (\<lambda>k. Inl (RemoteFetchError 3)) (\<lambda>k. Inr ()))
         \<lparr>unread_rejection_fatal := False\<rparr>)
        empty_world) = Inr ()
   \<and> last (console (snd (main
        ((demo_env
            (\<lambda>k. if k = 1 then Inr [\<lparr>entry_name = str ''a.py'', download_url = str ''u''\<rparr>]
                  else Inr [])
            (\<lambda>k. Inl (RemoteFetchError 3)) (\<lambda>k. Inr ()))
         \<lparr>unread_rejection_fatal := False\<rparr>)
        empty_world)))
      = Error [Str (str ''Error:''), Err (RemoteFetchError 3)]"
proof (intro conjI)
  let ?L = "\<lambda>k::nat. if k = 1 then Inr [\<lparr>entry_name = str ''a.py'', download_url = str ''u''\<rparr>]
      else Inr []"
  let ?E = "demo_env ?L (\<lambda>k. Inl (RemoteFetchError 3)) (\<lambda>k. Inr ())"
  let ?F = "?E\<lparr>unread_rejection_fatal := False\<rparr>"
  show "main ?E empty_world =
     (Inl (RemoteFetchError 3),
      \<lparr>calls = [(FsEnsureDir TEMP_DIR, None), (AxiosGet (API_URL @ str ''/code'') None, None),
                (AxiosGet (str ''u'')
                   (Some \<lparr>responseType = str ''utf8'', family = 4, timeout = 10000\<rparr>),
                 Some (RemoteFetchError 3))],
       fs = set (prefixes TEMP_DIR),
       console =
         [Log [Str (str ''Creating temporary directory...'')],
          Log [Str (str ''Processing code files...'')],
          Log [Str (str ''Processing image files...'')],
          Log [Str (str ''Processing chapter files...'')],
          Error [Str (str ''Error downloading file:''), Err (RemoteFetchError 3)]],
       ended = Some (RemoteFetchError 3)\<rparr>)"
    using unread_rejection_run [of "RemoteFetchError 3"]
    by (simp add: main_def try_catch_def main_try_def await_def)
  have run: "fst (main_try ?F empty_world) = Inl (RemoteFetchError 3)"
    "ended (snd (main_try ?F empty_world)) = None"
    by (simp_all add: main_try_def stage_assets_def await_def launch_def unread_def all3_def
        console_log_def fs_ensureDir_fulfilled getCodeFiles_def getImageFiles_def
        getChapterFiles_def fetchRepoContents_fulfilled resolve_def reject_def
        createCodeFiles_def createImageFiles_def Promise_all_def downloadFile_rejected
        to_remote_file_def demo_env_simps empty_world_def)
  obtain w' where mt: "main_try ?F empty_world = (Inl (RemoteFetchError 3), w')"
    and alive: "ended w' = None"
    using run by (cases "main_try ?F empty_world") auto
  then have m: "main ?F empty_world =
      (Inr (), w'\<lparr>console := console w' @ [Error [Str (str ''Error:''), Err (RemoteFetchError 3)]]\<rparr>)"
    by (simp add: main_def try_catch_def console_error_def)
  from m show "fst (main ?F empty_world) = Inr ()" by simp
  from m show "last (console (snd (main ?F empty_world)))
      = Error [Str (str ''Error:''), Err (RemoteFetchError 3)]"
    by simp
qed

section \<open>The calls a run issues\<close>

lemma grows_refl: "grows P w w"
  by (simp add: grows_def)

lemma grows_console: "grows P w (w\<lparr>console := c\<rparr>)"
  by (simp add: grows_def)

lemma grows_trans: "grows P w w1 \<Longrightarrow> grows P w1 w2 \<Longrightarrow> grows P w w2"
  unfolding grows_def by (elim exE conjE, rule_tac x = "cs @ csa" in exI) auto

lemma grows_mono: "grows P w w' \<Longrightarrow> (\<And>c. P c \<Longrightarrow> P' c) \<Longrightarrow> grows P' w w'"
  unfolding grows_def by (auto simp: list_all_iff)

lemma issuesI:
  "(\<And>w r w'. m w = (r, w') \<Longrightarrow> grows P w w') \<Longrightarrow>
   (\<And>w x w'. m w = (Inr x, w') \<Longrightarrow> grows Q w w') \<Longrightarrow> issues m P Q"
  unfolding issues_def by blast

lemma issuesD1: "issues m P Q \<Longrightarrow> m w = (r, w') \<Longrightarrow> grows P w w'"
  unfolding issues_def by blast

lemma issuesD2: "issues m P Q \<Longrightarrow> m w = (Inr x, w') \<Longrightarrow> grows Q w w'"
  unfolding issues_def by blast

lemma issues_weaken:
  assumes "issues m P Q" "\<And>c. P c \<Longrightarrow> P' c" "\<And>c. Q c \<Longrightarrow> Q' c"
  shows "issues m P' Q'"
proof (rule issuesI)
  fix w r w' assume "m w = (r, w')"
  from issuesD1 [OF assms(1) this] show "grows P' w w'"
    by (rule grows_mono) (rule assms(2))
next
  fix w x w' assume "m w = (Inr x, w')"
  from issuesD2 [OF assms(1) this] show "grows Q' w w'"
    by (rule grows_mono) (rule assms(3))
qed

lemma issues_resolve: "issues (resolve x) P Q"
  by (rule issuesI) (auto simp: resolve_def grows_refl)

lemma issues_reject: "issues (reject e) P Q"
  by (rule issuesI) (auto simp: reject_def grows_refl)

lemma issues_console_log: "issues (console_log args) P Q"
  by (rule issuesI) (auto simp: console_log_def grows_console)

lemma issues_console_error: "issues (console_error args) P Q"
  by (rule issuesI) (auto simp: console_error_def grows_console)

lemma issues_external:
  "(\<And>r. P (c, r)) \<Longrightarrow> Q (c, None) \<Longrightarrow> (\<And>p. c \<noteq> FsEnsureDir p) \<Longrightarrow>
     issues (external c reply) P Q"
  by (rule issuesI) (auto simp: external_def grows_def Let_def split: sum.splits)

lemma issues_await:
  assumes "issues m P Q" "\<And>x. issues (k x) P Q"
  shows "issues (await m k) P Q"
proof (rule issuesI)
  fix w r w' assume h: "await m k w = (r, w')"
  show "grows P w w'"
  proof (cases "m w")
    case (Pair r1 w1)
    have g: "grows P w w1" by (rule issuesD1 [OF assms(1) Pair])
    show ?thesis
    proof (cases r1)
      case (Inl e)
      with Pair h g show ?thesis by (simp add: await_def)
    next
      case (Inr x)
      with Pair h have "k x w1 = (r, w')" by (simp add: await_def)
      from issuesD1 [OF assms(2) this] have "grows P w1 w'" .
      with g show ?thesis by (rule grows_trans)
    qed
  qed
next
  fix w y w' assume h: "await m k w = (Inr y, w')"
  then obtain x w1 where m: "m w = (Inr x, w1)" and k: "k x w1 = (Inr y, w')"
    by (auto simp: await_Inr)
  from issuesD2 [OF assms(1) m] issuesD2 [OF assms(2) k]
  show "grows Q w w'" by (rule grows_trans)
qed

lemma issues_fs_effect:
  assumes "\<And>r. P (c, r)" "Q (c, None)"
    "is_remove (c, None) \<or> ((\<forall>S. S \<subseteq> f S) \<and> (\<forall>p. c = FsEnsureDir p \<longrightarrow> (\<forall>S. p \<in> f S)))"
  shows "issues (fs_effect E c f) P Q"
proof (rule issuesI)
  fix w r w' assume "fs_effect E c f w = (r, w')"
  with assms(1,3) show "grows P w w'"
    by (cases c) (auto simp: fs_effect_def await_def external_def Let_def grows_def split: sum.splits)
next
  fix w x w' assume "fs_effect E c f w = (Inr x, w')"
  with assms(2,3) show "grows Q w w'"
    by (cases c) (auto simp: fs_effect_def await_def external_def Let_def grows_def split: sum.splits)
qed

lemma issues_downloadFile:
  assumes "\<And>config r. P (AxiosGet fileUrl (Some config), r)"
    "\<And>config. Q (AxiosGet fileUrl (Some config), None)"
  shows "issues (downloadFile E fileUrl rt) P Q"
proof (rule issuesI)
  fix w r w' assume h: "downloadFile E fileUrl rt w = (r, w')"
  show "grows P w w'"
  proof (cases "file_reply E (length (calls w))")
    case (Inl e)
    from h assms(1) show ?thesis
      unfolding downloadFile_rejected [OF Inl] by (auto simp: grows_def)
  next
    case (Inr data)
    from h assms(1) show ?thesis
      unfolding downloadFile_fulfilled [OF Inr] by (auto simp: grows_def)
  qed
next
  fix w x w' assume h: "downloadFile E fileUrl rt w = (Inr x, w')"
  show "grows Q w w'"
  proof (cases "file_reply E (length (calls w))")
    case (Inl e)
    from h show ?thesis
      unfolding downloadFile_rejected [OF Inl] by simp
  next
    case (Inr data)
    from h assms(2) show ?thesis
      unfolding downloadFile_fulfilled [OF Inr] by (auto simp: grows_def)
  qed
qed

lemma issues_fetchRepoContents:
  assumes "\<And>url r. P (AxiosGet url None, r)" "\<And>url. Q (AxiosGet url None, None)"
  shows "issues (fetchRepoContents E folder) P Q"
proof (rule issuesI)
  fix w r w' assume h: "fetchRepoContents E folder w = (r, w')"
  show "grows P w w'"
  proof (cases "listing_reply E (length (calls w))")
    case (Inl e)
    from h assms(1) show ?thesis
      unfolding fetchRepoContents_rejected [OF Inl] by (auto simp: grows_def)
  next
    case (Inr data)
    from h assms(1) show ?thesis
      unfolding fetchRepoContents_fulfilled [OF Inr] by (auto simp: grows_def)
  qed
next
  fix w x w' assume h: "fetchRepoContents E folder w = (Inr x, w')"
  show "grows Q w w'"
  proof (cases "listing_reply E (length (calls w))")
    case (Inl e)
    from h show ?thesis
      unfolding fetchRepoContents_rejected [OF Inl] by simp
  next
    case (Inr data)
    from h assms(2) show ?thesis
      unfolding fetchRepoContents_fulfilled [OF Inr] by (auto simp: grows_def)
  qed
qed

lemma issues_catch_log:
  assumes "issues m (\<lambda>c. P c \<and> Q c) Q"
  shows "issues (catch_log m label) P Q"
proof -
  have both: "grows P w w1 \<and> grows Q w w1" if "m w = (r, w1)" for w r w1
    using issuesD1 [OF assms that] by (auto intro: grows_mono)
  show ?thesis
  proof (rule issuesI)
    fix w r w' assume h: "catch_log m label w = (r, w')"
    obtain r1 w1 where m: "m w = (r1, w1)" by (cases "m w")
    from h m have "w' = w1 \<or> (\<exists>c. w' = w1\<lparr>console := c\<rparr>)"
      by (auto simp: catch_log_def try_catch_def console_error_def split: sum.splits)
    with both [OF m] show "grows P w w'"
      by (auto intro: grows_trans grows_console)
  next
    fix w x w' assume h: "catch_log m label w = (Inr x, w')"
    obtain r1 w1 where m: "m w = (r1, w1)" by (cases "m w")
    from h m have "w' = w1 \<or> (\<exists>c. w' = w1\<lparr>console := c\<rparr>)"
      by (auto simp: catch_log_def try_catch_def console_error_def split: sum.splits)
    with both [OF m] show "grows Q w w'"
      by (auto intro: grows_trans grows_console)
  qed
qed

lemma launch_all_grows:
  "(\<And>p. p \<in> set ps \<Longrightarrow> issues p P Q) \<Longrightarrow> launch_all ps w = (rs, w') \<Longrightarrow>
     grows P w w' \<and> ((\<forall>r \<in> set rs. \<exists>x. r = Inr x) \<longrightarrow> grows Q w w')"
proof (induction ps arbitrary: w rs w')
  case Nil
  then show ?case by (simp add: grows_refl)
next
  case (Cons p ps)
  obtain r1 w1 where p: "p w = (r1, w1)" by (cases "p w")
  obtain rs1 w2 where l: "launch_all ps w1 = (rs1, w2)" by (cases "launch_all ps w1")
  from Cons.prems(2) p l have rs: "rs = r1 # rs1" and w': "w' = w2" by auto
  have ip: "issues p P Q" by (rule Cons.prems(1)) simp
  have ih: "grows P w1 w2 \<and> ((\<forall>r \<in> set rs1. \<exists>x. r = Inr x) \<longrightarrow> grows Q w1 w2)"
    by (rule Cons.IH [OF _ l]) (rule Cons.prems(1), simp)
  have "grows P w w2"
    using issuesD1 [OF ip p] ih by (blast intro: grows_trans)
  moreover have "grows Q w w2" if "\<forall>r \<in> set rs. \<exists>x. r = Inr x"
  proof -
    from that rs obtain x where "r1 = Inr x" by auto
    with p have "grows Q w w1" using issuesD2 [OF ip] by blast
    moreover from that rs ih have "grows Q w1 w2" by simp
    ultimately show ?thesis by (rule grows_trans)
  qed
  ultimately show ?case using w' by blast
qed

lemma settle_all_Inr_all:
  "settle_all rs = Inr xs \<Longrightarrow> \<forall>r \<in> set rs. \<exists>x. r = Inr x"
proof (induction rs arbitrary: xs)
  case Nil
  then show ?case by simp
next
  case (Cons r rs)
  then show ?case
    by (cases r) (auto split: sum.splits)
qed

lemma issues_Promise_all:
  assumes "\<And>p. p \<in> set ps \<Longrightarrow> issues p P Q"
  shows "issues (Promise_all ps) P Q"
proof (rule issuesI)
  fix w r w' assume "Promise_all ps w = (r, w')"
  then obtain rs where "launch_all ps w = (rs, w')"
    by (auto simp: Promise_all_def split: prod.splits)
  from launch_all_grows [OF assms this] show "grows P w w'" by simp
next
  fix w x w' assume "Promise_all ps w = (Inr x, w')"
  then obtain rs where l: "launch_all ps w = (rs, w')" and s: "settle_all rs = Inr x"
    by (auto simp: Promise_all_def split: prod.splits)
  from launch_all_grows [OF assms l] settle_all_Inr_all [OF s] show "grows Q w w'" by simp
qed

lemma never_fulfilled_await: "(\<And>x. never_fulfilled (k x)) \<Longrightarrow> never_fulfilled (await m k)"
  by (auto simp: never_fulfilled_def await_def split: prod.splits sum.splits)

lemma never_fulfilled_launch: "(\<And>r. never_fulfilled (k r)) \<Longrightarrow> never_fulfilled (launch m k)"
  by (auto simp: never_fulfilled_def launch_def split: prod.splits)

lemma never_fulfilled_all3:
  "never_fulfilled (all3 (Inl e) p2 p3)"
  "never_fulfilled (all3 p1 (Inl e) p3)"
  "never_fulfilled (all3 p1 p2 (Inl e))"
  by (auto simp: never_fulfilled_def all3_def reject_def split: sum.splits)

lemma issues_all3: "issues (all3 p1 p2 p3) P Q"
  by (rule issuesI) (auto simp: all3_def reject_def resolve_def grows_refl split: sum.splits)

lemma issues_launch:
  assumes "issues m P Q" "\<And>r. issues (k r) P Q" "\<And>e. never_fulfilled (k (Inl e))"
  shows "issues (launch m k) P Q"
proof (rule issuesI)
  fix w r w' assume h: "launch m k w = (r, w')"
  obtain r1 w1 where m: "m w = (r1, w1)" by (cases "m w")
  with h have k: "k r1 w1 = (r, w')" by (simp add: launch_def)
  from issuesD1 [OF assms(1) m] issuesD1 [OF assms(2) k] show "grows P w w'"
    by (rule grows_trans)
next
  fix w y w' assume h: "launch m k w = (Inr y, w')"
  obtain r1 w1 where m: "m w = (r1, w1)" by (cases "m w")
  with h have k: "k r1 w1 = (Inr y, w')" by (simp add: launch_def)
  with assms(3) obtain x where "r1 = Inr x"
    by (cases r1) (auto simp: never_fulfilled_def)
  with m have "grows Q w w1" using issuesD2 [OF assms(1)] by blast
  with issuesD2 [OF assms(2) k] show "grows Q w w'"
    by (blast intro: grows_trans)
qed

lemma grows_ended: "grows P w (w\<lparr>ended := x\<rparr>)"
  by (simp add: grows_def)

lemma issues_unread: "issues k P Q \<Longrightarrow> issues (unread E p k) P Q"
proof (rule issuesI)
  fix w r w' assume k: "issues k P Q" and h: "unread E p k w = (r, w')"
  then have "k w = (r, w') \<or> (\<exists>x. w' = w\<lparr>ended := x\<rparr>)"
    by (auto simp: unread_def split: sum.splits if_splits)
  with k show "grows P w w'"
    by (auto intro: issuesD1 grows_ended)
next
  fix w x w' assume k: "issues k P Q" and h: "unread E p k w = (Inr x, w')"
  then have "k w = (Inr x, w')"
    by (auto simp: unread_def split: sum.splits if_splits)
  with k show "grows Q w w'"
    by (rule issuesD2)
qed

lemma never_fulfilled_unread: "never_fulfilled k \<Longrightarrow> never_fulfilled (unread E p k)"
  by (auto simp: never_fulfilled_def unread_def split: sum.splits)

lemma issues_Promise_all_map:
  "(\<And>x. issues (f x) P Q) \<Longrightarrow> issues (Promise_all (map f xs)) P Q"
  by (rule issues_Promise_all) auto

lemma staging_calls:
  "issues (fetchRepoContents E folder) (\<lambda>c. \<not> saveAsPDF_call c) (\<lambda>c. \<not> is_failed_download c)"
  "issues (downloadFile E fileUrl rt) (\<lambda>c. \<not> saveAsPDF_call c) (\<lambda>c. \<not> is_failed_download c)"
  "issues (fs_ensureDir E p) (\<lambda>c. \<not> saveAsPDF_call c) (\<lambda>c. \<not> is_failed_download c)"
  "issues (fs_outputFile E (TEMP_DIR @ [str ''code'', n]) data)
     (\<lambda>c. \<not> saveAsPDF_call c) (\<lambda>c. \<not> is_failed_download c)"
  "issues (fs_writeFile E p data) (\<lambda>c. \<not> saveAsPDF_call c) (\<lambda>c. \<not> is_failed_download c)"
proof -
  show "issues (fetchRepoContents E folder) (\<lambda>c. \<not> saveAsPDF_call c) (\<lambda>c. \<not> is_failed_download c)"
    by (rule issues_fetchRepoContents) simp_all
  show "issues (downloadFile E fileUrl rt) (\<lambda>c. \<not> saveAsPDF_call c) (\<lambda>c. \<not> is_failed_download c)"
    by (rule issues_downloadFile) simp_all
  show "issues (fs_ensureDir E p) (\<lambda>c. \<not> saveAsPDF_call c) (\<lambda>c. \<not> is_failed_download c)"
    unfolding fs_ensureDir_def by (rule issues_fs_effect) auto
  show "issues (fs_outputFile E (TEMP_DIR @ [str ''code'', n]) data)
     (\<lambda>c. \<not> saveAsPDF_call c) (\<lambda>c. \<not> is_failed_download c)"
    unfolding fs_outputFile_def by (rule issues_fs_effect) auto
  show "issues (fs_writeFile E p data) (\<lambda>c. \<not> saveAsPDF_call c) (\<lambda>c. \<not> is_failed_download c)"
    unfolding fs_writeFile_def by (rule issues_fs_effect) auto
qed

lemma getters_calls:
  "issues (getCodeFiles E) (\<lambda>c. \<not> saveAsPDF_call c) (\<lambda>c. \<not> is_failed_download c)"
  "issues (getImageFiles E) (\<lambda>c. \<not> saveAsPDF_call c) (\<lambda>c. \<not> is_failed_download c)"
  "issues (getChapterFiles E) (\<lambda>c. \<not> saveAsPDF_call c) (\<lambda>c. \<not> is_failed_download c)"
  unfolding getCodeFiles_def getImageFiles_def getChapterFiles_def
  by (intro issues_await staging_calls issues_resolve)+

lemma createCodeFiles_calls:
  "issues (createCodeFiles E files) (\<lambda>c. \<not> saveAsPDF_call c) (\<lambda>c. \<not> is_failed_download c)"
  unfolding createCodeFiles_def
  by (intro issues_await issues_Promise_all_map staging_calls issues_resolve)
    (auto intro: staging_calls)

lemma createImageFiles_calls:
  "issues (createImageFiles E files) (\<lambda>c. \<not> saveAsPDF_call c) (\<lambda>c. \<not> is_failed_download c)"
  unfolding createImageFiles_def
  by (intro issues_await issues_Promise_all_map staging_calls issues_console_log)
    (auto intro: staging_calls)

lemma mergeFiles_calls:
  "issues (mergeFiles E files) (\<lambda>c. \<not> saveAsPDF_call c) (\<lambda>c. \<not> is_failed_download c)"
  unfolding mergeFiles_def
  by (intro issues_await issues_Promise_all_map staging_calls)
    (auto intro: issues_reject issues_resolve split: sum.splits)

lemma stage_assets_calls:
  "issues (stage_assets E) (\<lambda>c. \<not> saveAsPDF_call c) (\<lambda>c. \<not> is_failed_download c)"
  unfolding stage_assets_def
  by (intro issues_await issues_launch issues_unread issues_console_log staging_calls
      getters_calls createCodeFiles_calls createImageFiles_calls issues_all3
      never_fulfilled_unread never_fulfilled_await never_fulfilled_launch never_fulfilled_all3)

lemma pdf_stage_calls:
  "issues (fs_outputFile E p d) (\<lambda>c. \<not> is_failed_download c) (\<lambda>c. True)"
  "issues (asciidoctor_convertFile E p) (\<lambda>c. \<not> is_failed_download c) (\<lambda>c. True)"
  "issues (page_pdf E p) (\<lambda>c. \<not> is_failed_download c) (\<lambda>c. True)"
  "issues (Promise_all [browser_call E BrowserClose, fs_remove E TEMP_DIR])
      (\<lambda>c. \<not> is_failed_download c) (\<lambda>c. True)"
  "\<forall>url config. c \<noteq> AxiosGet url config \<Longrightarrow> \<forall>q. c \<noteq> FsEnsureDir q \<Longrightarrow>
     issues (browser_call E c) (\<lambda>c. \<not> is_failed_download c) (\<lambda>c. True)"
  "\<forall>url config. c \<noteq> AxiosGet url config \<Longrightarrow> \<forall>q. c \<noteq> FsEnsureDir q \<Longrightarrow>
     issues (browser_call E c) (\<lambda>c. \<not> is_failed_download c \<and> True) (\<lambda>c. True)"
proof -
  show "issues (fs_outputFile E p d) (\<lambda>c. \<not> is_failed_download c) (\<lambda>c. True)"
    unfolding fs_outputFile_def by (rule issues_fs_effect) auto
  show "issues (asciidoctor_convertFile E p) (\<lambda>c. \<not> is_failed_download c) (\<lambda>c. True)"
    unfolding asciidoctor_convertFile_def by (intro issues_external) simp_all
  show "issues (page_pdf E p) (\<lambda>c. \<not> is_failed_download c) (\<lambda>c. True)"
    unfolding page_pdf_def by (rule issues_fs_effect) auto
  show ext: "issues (browser_call E c) (\<lambda>c. \<not> is_failed_download c) (\<lambda>c. True)"
    if "\<forall>url config. c \<noteq> AxiosGet url config" "\<forall>q. c \<noteq> FsEnsureDir q" for c
    unfolding browser_call_def using that by (intro issues_external) (cases c; simp)+
  show "issues (browser_call E c) (\<lambda>c. \<not> is_failed_download c \<and> True) (\<lambda>c. True)"
    if "\<forall>url config. c \<noteq> AxiosGet url config" "\<forall>q. c \<noteq> FsEnsureDir q"
    using ext [OF that] by simp
  have rem: "issues (fs_remove E p) (\<lambda>c. \<not> is_failed_download c) (\<lambda>c. True)" for p
    unfolding fs_remove_def by (rule issues_fs_effect) auto
  show "issues (Promise_all [browser_call E BrowserClose, fs_remove E TEMP_DIR])
      (\<lambda>c. \<not> is_failed_download c) (\<lambda>c. True)"
    by (rule issues_Promise_all) (auto intro: ext rem)
qed

lemma saveAsPDF_calls:
  "issues (saveAsPDF E mergedContent) (\<lambda>c. \<not> is_failed_download c) (\<lambda>c. True)"
  unfolding saveAsPDF_def
  by (intro issues_await issues_console_log issues_catch_log pdf_stage_calls) simp_all

lemma grows_new_calls:
  "grows P w w' \<Longrightarrow> calls w' = calls w @ new_calls w w' \<and> list_all P (new_calls w w')"
  by (auto simp: grows_def new_calls_def)

lemma downloadFile_length:
  "downloadFile E fileUrl rt w = (r, w') \<Longrightarrow> length (calls w') = Suc (length (calls w))"
  by (cases "file_reply E (length (calls w))")
    (auto simp: downloadFile_rejected downloadFile_fulfilled)

lemma launch_all_downloads_rejected:
  "i < length files \<Longrightarrow> file_reply E (length (calls w) + i) = Inl e \<Longrightarrow>
   launch_all (map (\<lambda>file. downloadFile E (downloadUrl file) rt) files) w = (rs, w') \<Longrightarrow>
     i < length rs \<and> rs ! i = Inl e"
proof (induction files arbitrary: w i rs w')
  case Nil
  then show ?case by simp
next
  case (Cons f files)
  obtain r1 w1 where d: "downloadFile E (downloadUrl f) rt w = (r1, w1)"
    by (cases "downloadFile E (downloadUrl f) rt w")
  obtain rs1 w2 where l: "launch_all (map (\<lambda>file. downloadFile E (downloadUrl file) rt) files) w1 = (rs1, w2)"
    by (cases "launch_all (map (\<lambda>file. downloadFile E (downloadUrl file) rt) files) w1")
  from Cons.prems(3) d l have rs: "rs = r1 # rs1" by simp
  show ?case
  proof (cases i)
    case 0
    with Cons.prems(2) have "file_reply E (length (calls w)) = Inl e" by simp
    from d [unfolded downloadFile_rejected [OF this]] rs 0 show ?thesis by auto
  next
    case (Suc j)
    with Cons.prems(1) have j: "j < length files" by simp
    from Cons.prems(2) Suc downloadFile_length [OF d]
    have "file_reply E (length (calls w1) + j) = Inl e" by simp
    from Cons.IH [OF j this l] rs Suc show ?thesis by simp
  qed
qed

lemma settle_all_Inl: "i < length rs \<Longrightarrow> rs ! i = Inl e \<Longrightarrow> \<exists>e'. settle_all rs = Inl e'"
proof (induction rs arbitrary: i)
  case Nil
  then show ?case by simp
next
  case (Cons r rs)
  show ?case
  proof (cases r)
    case (Inl e1)
    then show ?thesis by simp
  next
    case (Inr x)
    with Cons.prems obtain j where "i = Suc j" by (cases i) auto
    with Cons.prems Cons.IH [of j] obtain e' where "settle_all rs = Inl e'" by auto
    with Inr show ?thesis by simp
  qed
qed

lemma Promise_all_downloads_rejected:
  assumes "i < length files" "file_reply E (length (calls w) + i) = Inl e"
  shows "\<exists>e' w'. Promise_all (map (\<lambda>file. downloadFile E (downloadUrl file) rt) files) w = (Inl e', w')"
proof -
  obtain rs w' where l: "launch_all (map (\<lambda>file. downloadFile E (downloadUrl file) rt) files) w = (rs, w')"
    by (cases "launch_all (map (\<lambda>file. downloadFile E (downloadUrl file) rt) files) w")
  from launch_all_downloads_rejected [OF assms l] settle_all_Inl [of i rs e]
  obtain e' where "settle_all rs = Inl e'" by blast
  with l show ?thesis by (simp add: Promise_all_def)
qed

lemma batch_rejected:
  assumes "i < length files" "file_reply E (length (calls w) + i) = Inl e"
  shows "\<exists>e' w'. createCodeFiles E files w = (Inl e', w')"
    and "\<exists>e' w'. createImageFiles E files w = (Inl e', w')"
    and "\<exists>e' w'. mergeFiles E files w = (Inl e', w')"
  using Promise_all_downloads_rejected [OF assms, of "str ''utf8''"]
    Promise_all_downloads_rejected [OF assms, of "str ''arraybuffer''"]
  by (auto simp: createCodeFiles_def createImageFiles_def mergeFiles_def await_Inl_result)

lemma main_try_calls:
  assumes "main_try E w = (r, w')"
  shows "(grows (\<lambda>c. \<not> saveAsPDF_call c) w w' \<and> (\<exists>e. r = Inl e))
     \<or> grows (\<lambda>c. \<not> is_failed_download c) w w'"
proof -
  obtain r1 w1 where st: "stage_assets E w = (r1, w1)" by (cases "stage_assets E w")
  show ?thesis
  proof (cases r1)
    case (Inl e)
    with st assms have "r = Inl e" "w' = w1" by (simp_all add: main_try_def await_def)
    with issuesD1 [OF stage_assets_calls st] show ?thesis by simp
  next
    case (Inr chapterFiles)
    with st have st': "stage_assets E w = (Inr chapterFiles, w1)" by simp
    obtain r2 w2 where mg: "mergeFiles E chapterFiles w1 = (r2, w2)"
      by (cases "mergeFiles E chapterFiles w1")
    show ?thesis
    proof (cases r2)
      case (Inl e)
      with st' mg assms have "r = Inl e" "w' = w2" by (simp_all add: main_try_def await_def)
      moreover from issuesD1 [OF stage_assets_calls st] issuesD1 [OF mergeFiles_calls mg]
      have "grows (\<lambda>c. \<not> saveAsPDF_call c) w w2" by (rule grows_trans)
      ultimately show ?thesis by simp
    next
      case (Inr mergedContent)
      with mg have mg': "mergeFiles E chapterFiles w1 = (Inr mergedContent, w2)" by simp
      let ?w3 = "w2\<lparr>console := console w2 @ [Log [Str (str ''Generating PDF...'')]]\<rparr>"
      obtain r4 w4 where sv: "saveAsPDF E mergedContent ?w3 = (r4, w4)"
        by (cases "saveAsPDF E mergedContent ?w3")
      from assms st' mg' sv have "w' = w4 \<or> (\<exists>c. w' = w4\<lparr>console := c\<rparr>)"
        by (auto simp: main_try_def await_def console_log_def split: sum.splits)
      moreover have "grows (\<lambda>c. \<not> is_failed_download c) w w4"
        using issuesD2 [OF stage_assets_calls st'] issuesD2 [OF mergeFiles_calls mg']
          grows_console [of "\<lambda>c. \<not> is_failed_download c" w2]
          issuesD1 [OF saveAsPDF_calls sv]
        by (blast intro: grows_trans)
      ultimately show ?thesis
        by (auto intro: grows_trans grows_console)
    qed
  qed
qed

lemma fs_effect_fulfilled:
  "effect_reply E (length (calls w)) = Inr () \<Longrightarrow>
     fs_effect E c f w = (Inr (), w\<lparr>calls := calls w @ [(c, None)], fs := f (fs w)\<rparr>)"
  by (simp add: fs_effect_def await_def external_Inr)

lemma failed_download_stops_the_run:
  assumes "main E w = (rm, wb)" "list_ex is_failed_download (new_calls w wb)"
  shows "(\<exists>e' w'. main_try E w = (Inl e', w')) \<and> \<not> list_ex saveAsPDF_call (new_calls w wb)"
proof -
  obtain rt wt where mt: "main_try E w = (rt, wt)" by (cases "main_try E w")
  with assms(1) have wb: "calls wb = calls wt"
    by (auto simp: main_def try_catch_def console_error_def split: sum.splits option.splits)
  then have nc: "new_calls w wb = new_calls w wt" by (simp add: new_calls_def)
  from main_try_calls [OF mt]
  have "grows (\<lambda>c. \<not> saveAsPDF_call c) w wt \<and> (\<exists>e. rt = Inl e)"
  proof
    assume "grows (\<lambda>c. \<not> is_failed_download c) w wt"
    from grows_new_calls [OF this] assms(2) nc show ?thesis
      by (auto simp: list_all_iff list_ex_iff)
  qed
  then have g: "grows (\<lambda>c. \<not> saveAsPDF_call c) w wt" and e: "\<exists>e. rt = Inl e" by simp_all
  from grows_new_calls [OF g] nc have "\<not> list_ex saveAsPDF_call (new_calls w wb)"
    by (auto simp: list_all_iff list_ex_iff)
  with e mt show ?thesis by blast
qed

text \<open>
  C3. If a download of a batch is rejected, the batch operation (createCodeFiles,
  createImageFiles or mergeFiles) is rejected (\<open>batch_rejected\<close>), and in a run of main
  in which a download was rejected the \<^verbatim>\<open>try\<close> block is not fulfilled and no call of
  \<open>saveAsPDF\<close> is issued, so no PDF is produced (\<open>failed_download_stops_the_run\<close>). But
  the failure does not always come out of the joined operations. The promise of
  \<^verbatim>\<open>createCodeFiles(await getCodeFiles())\<close> is handed to \<^verbatim>\<open>Promise.all\<close> only after
  \<^verbatim>\<open>await getImageFiles()\<close>, unlike the two promises next to it in the array. Below,
  the listing of the folder \<^verbatim>\<open>code\<close> answers two files, and the download of the second
  is rejected while main waits for the listing of the images, on a runtime that ends
  the process on an unhandled rejection. The batch is rejected, and the run ends
  there: the staging of the images and the listing of the chapters are never launched,
  \<^verbatim>\<open>Promise.all\<close> is never called, and the \<^verbatim>\<open>try\<close> block is never resumed, so nothing
  comes out of it. The third run is the one of a rejected download of an image on the
  same runtime: the three operations are launched and joined, and the failure comes
  out of the join.
\<close>

theorem C3_unread_rejection_ends_the_run_before_the_join:
  "createCodeFiles
     (demo_env
        (\<lambda>k. if k = 1 then Inr [\<lparr>entry_name = str ''a.py'', download_url = str ''u1''\<rparr>,
                                \<lparr>entry_name = str ''b.py'', download_url = str ''u2''\<rparr>]
              else Inr [])
        (\<lambda>k. if k = 3 then Inl (RemoteFetchError 3) else Inr (Text (str ''x = 1''))) (\<lambda>k. Inr ()))
     [\<lparr>name = str ''a.py'', downloadUrl = str ''u1''\<rparr>,
      \<lparr>name = str ''b.py'', downloadUrl = str ''u2''\<rparr>]
     \<lparr>calls = [(FsEnsureDir TEMP_DIR, None), (AxiosGet (API_URL @ str ''/code'') None, None)],
      fs = set (prefixes TEMP_DIR), console = [], ended = None\<rparr>
   = (Inl (RemoteFetchError 3),
      \<lparr>calls = [(FsEnsureDir TEMP_DIR, None), (AxiosGet (API_URL @ str ''/code'') None, None),
                (AxiosGet (str ''u1'')
                   (Some \<lparr>responseType = str ''utf8'', family = 4, timeout = 10000\<rparr>), None),
                (AxiosGet (str ''u2'')
                   (Some \<lparr>responseType = str ''utf8'', family = 4, timeout = 10000\<rparr>),
                 Some (RemoteFetchError 3))],
       fs = set (prefixes TEMP_DIR),
       console = [Error [Str (str ''Error downloading file:''), Err (RemoteFetchError 3)]],
       ended = None\<rparr>)
   \<and> main_try
     (demo_env
        (\<lambda>k. if k = 1 then Inr [\<lparr>entry_name = str ''a.py'', download_url = str ''u1''\<rparr>,
                                \<lparr>entry_name = str ''b.py'', download_url = str ''u2''\<rparr>]
              else Inr [])
        (\<lambda>k. if k = 3 then Inl (RemoteFetchError 3) else Inr (Text (str ''x = 1''))) (\<lambda>k. Inr ()))
     empty_world
   = (Inl (RemoteFetchError 3),
      \<lparr>calls = [(FsEnsureDir TEMP_DIR, None), (AxiosGet (API_URL @ str ''/code'') None, None),
                (AxiosGet (str ''u1'')
                   (Some \<lparr>responseType = str ''utf8'', family = 4, timeout = 10000\<rparr>), None),
                (AxiosGet (str ''u2'')
                   (Some \<lparr>responseType = str ''utf8'', family = 4, timeout = 10000\<rparr>),
                 Some (RemoteFetchError 3))],
       fs = set (prefixes TEMP_DIR),
       console =
         [Log [Str (str ''Creating temporary directory...'')],
          Log [Str (str ''Processing code files...'')],
          Log [Str (str ''Processing image files...'')],
          Log [Str (str ''Processing chapter files...'')],
          Error [Str (str ''Error downloading file:''), Err (RemoteFetchError 3)]],
       ended = Some (RemoteFetchError 3)\<rparr>)
   \<and> fst (main_try
        (demo_env
           (\<lambda>k. if k = 3 then Inr [\<lparr>entry_name = str ''a.png'', download_url = str ''u''\<rparr>]
                 else Inr [])
           (\<lambda>k. Inl (RemoteFetchError 4)) (\<lambda>k. Inr ()))
        empty_world) = Inl (RemoteFetchError 4)
   \<and> ended (snd (main_try
        (demo_env
           (\<lambda>k. if k = 3 then Inr [\<lparr>entry_name = str ''a.png'', download_url = str ''u''\<rparr>]
                 else Inr [])
           (\<lambda>k. Inl (RemoteFetchError 4)) (\<lambda>k. Inr ()))
        empty_world)) = None
   \<and> calls (snd (main_try
        (demo_env
           (\<lambda>k. if k = 3 then Inr [\<lparr>entry_name = str ''a.png'', download_url = str ''u''\<rparr>]
                 else Inr [])
           (\<lambda>k. Inl (RemoteFetchError 4)) (\<lambda>k. Inr ()))
        empty_world))
      = [(FsEnsureDir TEMP_DIR, None), (AxiosGet (API_URL @ str ''/code'') None, None),
         (FsEnsureDir (TEMP_DIR @ [str ''code'']), None),
         (AxiosGet (API_URL @ str ''/images'') None, None),
         (AxiosGet (str ''u'')
            (Some \<lparr>responseType = str ''arraybuffer'', family = 4, timeout = 10000\<rparr>),
          Some (RemoteFetchError 4)),
         (AxiosGet (API_URL @ str ''/'') None, None)]"
proof (intro conjI)
  let ?L = "\<lambda>k::nat. if k = 1 then Inr [\<lparr>entry_name = str ''a.py'', download_url = str ''u1''\<rparr>,
                                \<lparr>entry_name = str ''b.py'', download_url = str ''u2''\<rparr>]
              else Inr []"
  let ?F = "\<lambda>k::nat. if k = 3 then Inl (RemoteFetchError 3) else Inr (Text (str ''x = 1''))"
  let ?E = "demo_env ?L ?F (\<lambda>k. Inr ())"
  have s: "str ''/'' @ str ''code'' = str ''/code''"
    by (simp add: str_def)
  show "createCodeFiles ?E
     [\<lparr>name = str ''a.py'', downloadUrl = str ''u1''\<rparr>,
      \<lparr>name = str ''b.py'', downloadUrl = str ''u2''\<rparr>]
     \<lparr>calls = [(FsEnsureDir TEMP_DIR, None), (AxiosGet (API_URL @ str ''/code'') None, None)],
      fs = set (prefixes TEMP_DIR), console = [], ended = None\<rparr>
   = (Inl (RemoteFetchError 3),
      \<lparr>calls = [(FsEnsureDir TEMP_DIR, None), (AxiosGet (API_URL @ str ''/code'') None, None),
                (AxiosGet (str ''u1'')
                   (Some \<lparr>responseType = str ''utf8'', family = 4, timeout = 10000\<rparr>), None),
                (AxiosGet (str ''u2'')
                   (Some \<lparr>responseType = str ''utf8'', family = 4, timeout = 10000\<rparr>),
                 Some (RemoteFetchError 3))],
       fs = set (prefixes TEMP_DIR),
       console = [Error [Str (str ''Error downloading file:''), Err (RemoteFetchError 3)]],
       ended = None\<rparr>)"
    by (simp add: createCodeFiles_def Promise_all_def await_def downloadFile_rejected
        downloadFile_fulfilled demo_env_simps)
  show "main_try ?E empty_world
   = (Inl (RemoteFetchError 3),
      \<lparr>calls = [(FsEnsureDir TEMP_DIR, None), (AxiosGet (API_URL @ str ''/code'') None, None),
                (AxiosGet (str ''u1'')
                   (Some \<lparr>responseType = str ''utf8'', family = 4, timeout = 10000\<rparr>), None),
                (AxiosGet (str ''u2'')
                   (Some \<lparr>responseType = str ''utf8'', family = 4, timeout = 10000\<rparr>),
                 Some (RemoteFetchError 3))],
       fs = set (prefixes TEMP_DIR),
       console =
         [Log [Str (str ''Creating temporary directory...'')],
          Log [Str (str ''Processing code files...'')],
          Log [Str (str ''Processing image files...'')],
          Log [Str (str ''Processing chapter files...'')],
          Error [Str (str ''Error downloading file:''), Err (RemoteFetchError 3)]],
       ended = Some (RemoteFetchError 3)\<rparr>)"
    by (simp add: main_try_def stage_assets_def await_def launch_def unread_def console_log_def
        fs_ensureDir_fulfilled getCodeFiles_def fetchRepoContents_fulfilled resolve_def
        createCodeFiles_def Promise_all_def downloadFile_rejected downloadFile_fulfilled
        to_remote_file_def demo_env_simps empty_world_def s)
  let ?G = "demo_env
      (\<lambda>k. if k = 3 then Inr [\<lparr>entry_name = str ''a.png'', download_url = str ''u''\<rparr>] else Inr [])
      (\<lambda>k. Inl (RemoteFetchError 4)) (\<lambda>k. Inr ())"
  have s': "str ''/'' @ str ''images'' = str ''/images''" "str ''/'' @ [] = str ''/''"
    by (simp_all add: str_def)
  show "fst (main_try ?G empty_world) = Inl (RemoteFetchError 4)"
    "ended (snd (main_try ?G empty_world)) = None"
    "calls (snd (main_try ?G empty_world))
      = [(FsEnsureDir TEMP_DIR, None), (AxiosGet (API_URL @ str ''/code'') None, None),
         (FsEnsureDir (TEMP_DIR @ [str ''code'']), None),
         (AxiosGet (API_URL @ str ''/images'') None, None),
         (AxiosGet (str ''u'')
            (Some \<lparr>responseType = str ''arraybuffer'', family = 4, timeout = 10000\<rparr>),
          Some (RemoteFetchError 4)),
         (AxiosGet (API_URL @ str ''/'') None, None)]"
    by (simp_all add: main_try_def stage_assets_def await_def launch_def unread_def all3_def
        console_log_def fs_ensureDir_fulfilled getCodeFiles_def getImageFiles_def
        getChapterFiles_def fetchRepoContents_fulfilled resolve_def reject_def
        createCodeFiles_def createImageFiles_def Promise_all_def downloadFile_rejected
        to_remote_file_def demo_env_simps empty_world_def s s')
qed

section \<open>The PDF stage and the whole run\<close>

lemma runsI: "(\<And>w r w'. m w = (r, w') \<Longrightarrow> R w (\<exists>x. r = Inr x) w') \<Longrightarrow> runs m R"
  unfolding runs_def by blast

lemma runsD: "runs m R \<Longrightarrow> m w = (r, w') \<Longrightarrow> R w (\<exists>x. r = Inr x) w'"
  unfolding runs_def by blast

lemma cleanup_last_after:
  assumes "grows (\<lambda>c. \<not> is_remove c) w w1" "cleanup_last w1 b w'"
  shows "cleanup_last w b w'"
proof -
  from assms(1) obtain cs1 where c1: "calls w1 = calls w @ cs1" "list_all (\<lambda>c. \<not> is_remove c) cs1"
    by (auto simp: grows_def)
  from assms(2) obtain cs2 where c2: "calls w' = calls w1 @ cs2"
    "list_ex is_remove cs2 \<longrightarrow> (PagePdf OUTPUT_FILE, None) \<in> set cs2"
    "b \<longrightarrow> TEMP_DIR \<notin> fs w' \<and> OUTPUT_FILE \<in> fs w'
       \<and> (\<exists>cs'. cs2 = cs' @ [(PagePdf OUTPUT_FILE, None), (BrowserClose, None), (FsRemove TEMP_DIR, None)])"
    by (auto simp: cleanup_last_def)
  have a: "calls w' = calls w @ (cs1 @ cs2)" using c1 c2 by simp
  have b: "list_ex is_remove (cs1 @ cs2) \<longrightarrow> (PagePdf OUTPUT_FILE, None) \<in> set (cs1 @ cs2)"
    using c1(2) c2(2) by (auto simp: list_all_iff list_ex_iff)
  have c: "b \<longrightarrow> TEMP_DIR \<notin> fs w' \<and> OUTPUT_FILE \<in> fs w'
       \<and> (\<exists>cs'. cs1 @ cs2 = cs' @ [(PagePdf OUTPUT_FILE, None), (BrowserClose, None), (FsRemove TEMP_DIR, None)])"
  proof
    assume b
    with c2(3) obtain cs' where "cs2 = cs' @ [(PagePdf OUTPUT_FILE, None), (BrowserClose, None), (FsRemove TEMP_DIR, None)]"
      and f: "TEMP_DIR \<notin> fs w'" "OUTPUT_FILE \<in> fs w'" by blast
    then have "cs1 @ cs2 = (cs1 @ cs') @ [(PagePdf OUTPUT_FILE, None), (BrowserClose, None), (FsRemove TEMP_DIR, None)]"
      by simp
    with f show "TEMP_DIR \<notin> fs w' \<and> OUTPUT_FILE \<in> fs w'
       \<and> (\<exists>cs'. cs1 @ cs2 = cs' @ [(PagePdf OUTPUT_FILE, None), (BrowserClose, None), (FsRemove TEMP_DIR, None)])"
      by blast
  qed
  from a b c show ?thesis unfolding cleanup_last_def by blast
qed

lemma cleanup_last_none: "grows (\<lambda>c. \<not> is_remove c) w w' \<Longrightarrow> cleanup_last w False w'"
  by (auto simp: grows_def cleanup_last_def list_all_iff list_ex_iff)

lemma runs_await_cleanup:
  assumes "issues m (\<lambda>c. \<not> is_remove c) (\<lambda>c. True)" "\<And>x. runs (k x) cleanup_last"
  shows "runs (await m k) cleanup_last"
proof (rule runsI)
  fix w r w' assume h: "await m k w = (r, w')"
  obtain r1 w1 where m: "m w = (r1, w1)" by (cases "m w")
  have g: "grows (\<lambda>c. \<not> is_remove c) w w1" by (rule issuesD1 [OF assms(1) m])
  show "cleanup_last w (\<exists>x. r = Inr x) w'"
  proof (cases r1)
    case (Inl e)
    with h m have "r = Inl e" "w' = w1" by (simp_all add: await_def)
    with cleanup_last_none [OF g] show ?thesis by simp
  next
    case (Inr x)
    with h m have "k x w1 = (r, w')" by (simp add: await_def)
    from cleanup_last_after [OF g runsD [OF assms(2) this]] show ?thesis .
  qed
qed

lemma OUTPUT_FILE_outside_TEMP_DIR: "\<not> prefix TEMP_DIR OUTPUT_FILE"
  by (simp add: TEMP_DIR_def OUTPUT_FILE_def str_def)

lemma final_steps:
  "Promise_all [browser_call E BrowserClose, fs_remove E TEMP_DIR] w =
     (settle_all [effect_reply E (length (calls w)), effect_reply E (Suc (length (calls w)))],
      w\<lparr>calls := calls w @
           [(BrowserClose,
             case effect_reply E (length (calls w)) of Inl e \<Rightarrow> Some e | Inr u \<Rightarrow> None),
            (FsRemove TEMP_DIR,
             case effect_reply E (Suc (length (calls w))) of Inl e \<Rightarrow> Some e | Inr u \<Rightarrow> None)],
         fs := (case effect_reply E (Suc (length (calls w))) of
                  Inl e \<Rightarrow> fs w
                | Inr u \<Rightarrow> Set.filter (\<lambda>q. \<not> prefix TEMP_DIR q) (fs w))\<rparr>)"
  by (cases "effect_reply E (length (calls w))"; cases "effect_reply E (Suc (length (calls w)))")
    (simp_all add: Promise_all_def browser_call_def fs_remove_def fs_effect_def external_def
      await_def)

lemma settle_two:
  "settle_all [a, b] = Inr xs \<Longrightarrow> \<exists>x y. a = Inr x \<and> b = Inr y"
  by (cases a; cases b) auto

lemma cleanup_runs:
  "runs (await (page_pdf E OUTPUT_FILE) (\<lambda>_.
     await (Promise_all [browser_call E BrowserClose, fs_remove E TEMP_DIR]) (\<lambda>_.
     console_log args)))
     cleanup_last"
proof (rule runsI)
  fix w r w'
  assume h: "await (page_pdf E OUTPUT_FILE) (\<lambda>_.
     await (Promise_all [browser_call E BrowserClose, fs_remove E TEMP_DIR]) (\<lambda>_.
     console_log args)) w = (r, w')"
  show "cleanup_last w (\<exists>x. r = Inr x) w'"
  proof (cases "effect_reply E (length (calls w))")
    case (Inl e)
    with h have "r = Inl e" "calls w' = calls w @ [(PagePdf OUTPUT_FILE, Some e)]"
      by (auto simp: await_def page_pdf_def fs_effect_def external_def)
    then show ?thesis by (simp add: cleanup_last_def)
  next
    case (Inr u)
    define w1 where "w1 = w\<lparr>calls := calls w @ [(PagePdf OUTPUT_FILE, None)], fs := insert OUTPUT_FILE (fs w)\<rparr>"
    define a where "a = effect_reply E (length (calls w1))"
    define b where "b = effect_reply E (Suc (length (calls w1)))"
    define w2 where "w2 = w1\<lparr>calls := calls w1 @
           [(BrowserClose, case a of Inl e \<Rightarrow> Some e | Inr u \<Rightarrow> None),
            (FsRemove TEMP_DIR, case b of Inl e \<Rightarrow> Some e | Inr u \<Rightarrow> None)],
         fs := (case b of Inl e \<Rightarrow> fs w1 | Inr u \<Rightarrow> Set.filter (\<lambda>q. \<not> prefix TEMP_DIR q) (fs w1))\<rparr>"
    from Inr have p: "page_pdf E OUTPUT_FILE w = (Inr (), w1)"
      by (simp add: page_pdf_def fs_effect_fulfilled w1_def)
    have f: "Promise_all [browser_call E BrowserClose, fs_remove E TEMP_DIR] w1 = (settle_all [a, b], w2)"
      unfolding a_def b_def w2_def by (rule final_steps)
    from h have h1: "await (Promise_all [browser_call E BrowserClose, fs_remove E TEMP_DIR])
        (\<lambda>_. console_log args) w1 = (r, w')"
      by (simp add: await_def p)
    have c2: "calls w2 = calls w @ [(PagePdf OUTPUT_FILE, None),
        (BrowserClose, case a of Inl e \<Rightarrow> Some e | Inr u \<Rightarrow> None),
        (FsRemove TEMP_DIR, case b of Inl e \<Rightarrow> Some e | Inr u \<Rightarrow> None)]"
      by (simp add: w2_def w1_def)
    show ?thesis
    proof (cases "settle_all [a, b]")
      case (Inl e)
      with f h1 have "r = Inl e" "w' = w2"
        by (simp_all add: await_def)
      with c2 show ?thesis
        by (simp add: cleanup_last_def)
    next
      case (Inr xs)
      with f h1 have r: "r = Inr ()" and w': "w' = w2\<lparr>console := console w2 @ [Log args]\<rparr>"
        by (simp_all add: await_def console_log_def)
      from settle_two [OF Inr] have ab: "a = Inr ()" "b = Inr ()" by auto
      from ab have "fs w2 = Set.filter (\<lambda>q. \<not> prefix TEMP_DIR q) (insert OUTPUT_FILE (fs w))"
        by (simp add: w2_def w1_def)
      with OUTPUT_FILE_outside_TEMP_DIR have fsw: "TEMP_DIR \<notin> fs w'" "OUTPUT_FILE \<in> fs w'"
        by (simp_all add: w')
      from c2 ab have cw: "calls w' = calls w @ [(PagePdf OUTPUT_FILE, None),
          (BrowserClose, None), (FsRemove TEMP_DIR, None)]"
        by (simp add: w')
      have "\<exists>cs'. [(PagePdf OUTPUT_FILE, None), (BrowserClose, None), (FsRemove TEMP_DIR, None)]
          = cs' @ [(PagePdf OUTPUT_FILE, None), (BrowserClose, None), (FsRemove TEMP_DIR, None)]"
        by (rule exI [of _ "[]"]) simp
      with cw fsw show ?thesis
        unfolding cleanup_last_def by (intro exI [of _ "[(PagePdf OUTPUT_FILE, None),
          (BrowserClose, None), (FsRemove TEMP_DIR, None)]"]) simp
    qed
  qed
qed

lemma runs_await_console:
  assumes "runs m cleanup_last"
  shows "runs (await m (\<lambda>_. console_log args)) cleanup_last"
proof (rule runsI)
  fix w r w' assume h: "await m (\<lambda>_. console_log args) w = (r, w')"
  obtain r1 w1 where m: "m w = (r1, w1)" by (cases "m w")
  from h m have "(\<exists>x. r = Inr x) = (\<exists>x. r1 = Inr x)" "calls w' = calls w1" "fs w' = fs w1"
    by (auto simp: await_def console_log_def split: sum.splits)
  with runsD [OF assms m] show "cleanup_last w (\<exists>x. r = Inr x) w'"
    by (simp add: cleanup_last_def)
qed

lemma before_cleanup_calls:
  "issues (fs_outputFile E p d) (\<lambda>c. \<not> is_remove c) (\<lambda>c. True)"
  "issues (asciidoctor_convertFile E p) (\<lambda>c. \<not> is_remove c) (\<lambda>c. True)"
  "\<forall>q. c \<noteq> FsRemove q \<Longrightarrow> \<forall>q. c \<noteq> FsEnsureDir q \<Longrightarrow>
     issues (browser_call E c) (\<lambda>c. \<not> is_remove c) (\<lambda>c. True)"
  "\<forall>q. c \<noteq> FsRemove q \<Longrightarrow> \<forall>q. c \<noteq> FsEnsureDir q \<Longrightarrow>
     issues (browser_call E c) (\<lambda>c. \<not> is_remove c \<and> True) (\<lambda>c. True)"
proof -
  show "issues (fs_outputFile E p d) (\<lambda>c. \<not> is_remove c) (\<lambda>c. True)"
    unfolding fs_outputFile_def by (rule issues_fs_effect) auto
  show "issues (asciidoctor_convertFile E p) (\<lambda>c. \<not> is_remove c) (\<lambda>c. True)"
    unfolding asciidoctor_convertFile_def by (intro issues_external) simp_all
  show b: "issues (browser_call E c) (\<lambda>c. \<not> is_remove c) (\<lambda>c. True)"
    if "\<forall>q. c \<noteq> FsRemove q" "\<forall>q. c \<noteq> FsEnsureDir q"
    unfolding browser_call_def using that by (intro issues_external) (cases c; simp)+
  show "issues (browser_call E c) (\<lambda>c. \<not> is_remove c \<and> True) (\<lambda>c. True)"
    if "\<forall>q. c \<noteq> FsRemove q" "\<forall>q. c \<noteq> FsEnsureDir q"
    using b [OF that] by simp
qed

lemma saveAsPDF_runs: "runs (saveAsPDF E mergedContent) cleanup_last"
  unfolding saveAsPDF_def
  by (intro runs_await_cleanup cleanup_runs issues_console_log issues_catch_log
      before_cleanup_calls) simp_all

lemma saveAsPDF_call_remove: "is_remove c \<Longrightarrow> saveAsPDF_call c"
  by (cases c rule: is_remove.cases) simp_all

lemma main_try_runs: "runs (main_try E) cleanup_last"
proof -
  have st: "issues (stage_assets E) (\<lambda>c. \<not> is_remove c) (\<lambda>c. True)"
    by (rule issues_weaken [OF stage_assets_calls]) (auto dest: saveAsPDF_call_remove)
  have mg: "issues (mergeFiles E files) (\<lambda>c. \<not> is_remove c) (\<lambda>c. True)" for files
    by (rule issues_weaken [OF mergeFiles_calls]) (auto dest: saveAsPDF_call_remove)
  show ?thesis
    unfolding main_try_def
    apply (rule runs_await_cleanup [OF st])
    apply (rule runs_await_cleanup [OF mg])
    apply (rule runs_await_cleanup [OF issues_console_log])
    apply (rule runs_await_console [OF saveAsPDF_runs])
    done
qed

lemma await_first_call:
  assumes "await m k w = (Inr y, w')"
    "\<And>x w1. m w = (Inr x, w1) \<Longrightarrow> calls w1 = calls w @ [c]"
    "\<And>x. issues (k x) (\<lambda>c. True) (\<lambda>c. True)"
  shows "\<exists>cs. calls w' = calls w @ c # cs"
proof -
  from assms(1) obtain x w1 where m: "m w = (Inr x, w1)" and k: "k x w1 = (Inr y, w')"
    by (auto simp: await_Inr)
  from issuesD1 [OF assms(3) k] obtain cs where "calls w' = calls w1 @ cs"
    by (auto simp: grows_def)
  with assms(2) [OF m] show ?thesis by simp
qed

lemma await_console_log_first:
  "await (console_log args) k w = (r, w') \<Longrightarrow>
     k () (w\<lparr>console := console w @ [Log args]\<rparr>) = (r, w')"
  by (simp add: await_def console_log_def)

lemma fs_effect_Inr_calls:
  "fs_effect E c f w = (Inr x, w1) \<Longrightarrow> calls w1 = calls w @ [(c, None)]"
  by (auto simp: fs_effect_def await_def external_def Let_def split: sum.splits)

lemma stage_assets_first_call:
  assumes "stage_assets E w = (Inr y, w')"
  shows "\<exists>cs. calls w' = calls w @ (FsEnsureDir TEMP_DIR, None) # cs"
proof -
  let ?w0 = "w\<lparr>console := console w @ [Log [Str (str ''Creating temporary directory...'')]]\<rparr>"
  note h = await_console_log_first [OF assms [unfolded stage_assets_def]]
  have "\<exists>cs. calls w' = calls ?w0 @ (FsEnsureDir TEMP_DIR, None) # cs"
  proof (rule await_first_call [OF h], goal_cases)
    case (1 x w1)
    then show ?case unfolding fs_ensureDir_def by (rule fs_effect_Inr_calls)
  next
    case (2 x)
    show ?case
      by (rule issues_weaken [where P = "\<lambda>c. \<not> saveAsPDF_call c"
            and Q = "\<lambda>c. \<not> is_failed_download c"],
          intro issues_await issues_launch issues_unread issues_console_log staging_calls
            getters_calls createCodeFiles_calls createImageFiles_calls issues_all3
            never_fulfilled_unread never_fulfilled_await never_fulfilled_launch
            never_fulfilled_all3)
        simp_all
  qed
  then show ?thesis by simp
qed

lemma saveAsPDF_first_call:
  assumes "saveAsPDF E mergedContent w = (Inr y, w')"
  shows "\<exists>cs. calls w' = calls w @
      (FsOutputFile (TEMP_DIR @ [str ''merged.adoc'']) (Text mergedContent), None) # cs"
proof (rule await_first_call [OF assms [unfolded saveAsPDF_def]], goal_cases)
  case (1 x w1)
  then show ?case unfolding fs_outputFile_def by (rule fs_effect_Inr_calls)
next
  case (2 x)
  show ?case
    by (rule issues_weaken [where P = "\<lambda>c. \<not> is_failed_download c" and Q = "\<lambda>c. True"],
        intro issues_await issues_console_log issues_catch_log pdf_stage_calls)
      simp_all
qed

lemma all_fulfilled_mono: "all_fulfilled E n \<Longrightarrow> n \<le> n' \<Longrightarrow> all_fulfilled E n'"
  by (auto simp: all_fulfilled_def)

lemma fulfilsI:
  "(\<And>w. all_fulfilled E (length (calls w)) \<Longrightarrow>
      \<exists>x w'. m w = (Inr x, w') \<and> length (calls w) \<le> length (calls w')) \<Longrightarrow> fulfils E m"
  unfolding fulfils_def by blast

lemma fulfilsD:
  "fulfils E m \<Longrightarrow> all_fulfilled E (length (calls w)) \<Longrightarrow>
     \<exists>x w'. m w = (Inr x, w') \<and> length (calls w) \<le> length (calls w')"
  unfolding fulfils_def by blast

lemma fulfils_resolve: "fulfils E (resolve x)"
  by (rule fulfilsI) (simp add: resolve_def)

lemma fulfils_console_log: "fulfils E (console_log args)"
  by (rule fulfilsI) (simp add: console_log_def)

lemma fulfils_external:
  "fulfils E (external c (effect_reply E))"
  "fulfils E (external c (convert_reply E))"
  "fulfils E (external c (listing_reply E))"
  "fulfils E (external c (file_reply E))"
  by (rule fulfilsI, auto simp: external_def all_fulfilled_def Let_def split: sum.splits)+

lemma fulfils_await:
  assumes "fulfils E m" "\<And>x. fulfils E (k x)"
  shows "fulfils E (await m k)"
proof (rule fulfilsI)
  fix w :: world assume a: "all_fulfilled E (length (calls w))"
  from fulfilsD [OF assms(1) a] obtain x w1 where
    m: "m w = (Inr x, w1)" and l: "length (calls w) \<le> length (calls w1)" by blast
  from fulfilsD [OF assms(2) all_fulfilled_mono [OF a l]] obtain y w' where
    "k x w1 = (Inr y, w')" "length (calls w1) \<le> length (calls w')" by blast
  with m l show "\<exists>x w'. await m k w = (Inr x, w') \<and> length (calls w) \<le> length (calls w')"
    by (simp add: await_def)
qed

lemma fulfils_fs_effect: "fulfils E (fs_effect E c f)"
  by (rule fulfilsI) (auto simp: fs_effect_def await_def external_def all_fulfilled_def Let_def)

lemma fulfils_try_catch: "fulfils E m \<Longrightarrow> fulfils E (try_catch m h)"
  by (rule fulfilsI) (auto simp: try_catch_def dest!: fulfilsD)

lemma fulfils_launch:
  assumes "fulfils E m" "\<And>x. fulfils E (k (Inr x))"
  shows "fulfils E (launch m k)"
proof (rule fulfilsI)
  fix w :: world assume a: "all_fulfilled E (length (calls w))"
  from fulfilsD [OF assms(1) a] obtain x w1 where
    m: "m w = (Inr x, w1)" and l: "length (calls w) \<le> length (calls w1)" by blast
  from fulfilsD [OF assms(2) all_fulfilled_mono [OF a l]] obtain y w' where
    "k (Inr x) w1 = (Inr y, w')" "length (calls w1) \<le> length (calls w')" by blast
  with m l show "\<exists>x w'. launch m k w = (Inr x, w') \<and> length (calls w) \<le> length (calls w')"
    by (simp add: launch_def)
qed

lemma fulfils_unread: "fulfils E k \<Longrightarrow> fulfils E (unread E (Inr x) k)"
  by (simp add: fulfils_def unread_def)

lemma launch_all_fulfils:
  "(\<And>p. p \<in> set ps \<Longrightarrow> fulfils E p) \<Longrightarrow> all_fulfilled E (length (calls w)) \<Longrightarrow>
     \<exists>xs w'. launch_all ps w = (map Inr xs, w') \<and> length (calls w) \<le> length (calls w')"
proof (induction ps arbitrary: w)
  case Nil
  show ?case by (simp add: exI [of _ "[]"])
next
  case (Cons p ps)
  have "fulfils E p" by (rule Cons.prems(1)) simp
  from fulfilsD [OF this Cons.prems(2)] obtain x w1 where
    p: "p w = (Inr x, w1)" and l: "length (calls w) \<le> length (calls w1)" by blast
  have "\<exists>xs w'. launch_all ps w1 = (map Inr xs, w') \<and> length (calls w1) \<le> length (calls w')"
    by (rule Cons.IH [OF _ all_fulfilled_mono [OF Cons.prems(2) l]]) (rule Cons.prems(1), simp)
  then obtain xs w' where "launch_all ps w1 = (map Inr xs, w')" "length (calls w1) \<le> length (calls w')"
    by blast
  with p l have "launch_all (p # ps) w = (map Inr (x # xs), w') \<and> length (calls w) \<le> length (calls w')"
    by simp
  then show ?case by blast
qed

lemma fulfils_Promise_all:
  assumes "\<And>p. p \<in> set ps \<Longrightarrow> fulfils E p"
  shows "fulfils E (Promise_all ps)"
proof (rule fulfilsI)
  fix w :: world assume "all_fulfilled E (length (calls w))"
  from launch_all_fulfils [OF assms this] obtain xs w' where
    "launch_all ps w = (map Inr xs, w')" "length (calls w) \<le> length (calls w')" by blast
  then show "\<exists>x w'. Promise_all ps w = (Inr x, w') \<and> length (calls w) \<le> length (calls w')"
    by (simp add: Promise_all_def settle_all_map_Inr [of "\<lambda>x. x", simplified])
qed

lemma fulfils_Promise_all_map:
  "(\<And>x. fulfils E (f x)) \<Longrightarrow> fulfils E (Promise_all (map f xs))"
  by (rule fulfils_Promise_all) auto

lemma fulfils_mergeFiles: "fulfils E (mergeFiles E files)"
proof (rule fulfilsI)
  fix w :: world assume a: "all_fulfilled E (length (calls w))"
  then have "\<forall>i. \<exists>d. file_reply E (length (calls w) + i) = Inr d"
    by (simp add: all_fulfilled_def)
  then obtain ds where "\<forall>i. file_reply E (length (calls w) + i) = Inr (ds i)"
    by metis
  then have "\<forall>i<length files. file_reply E (length (calls w) + i) = Inr (ds i)" by simp
  from mergeFiles_fulfilled [OF this]
  show "\<exists>x w'. mergeFiles E files w = (Inr x, w') \<and> length (calls w) \<le> length (calls w')"
    by simp
qed

lemma fulfils_functions:
  "fulfils E (fetchRepoContents E folder)"
  "fulfils E (downloadFile E fileUrl rt)"
  "fulfils E (fs_ensureDir E p)"
  "fulfils E (fs_outputFile E p d)"
  "fulfils E (fs_writeFile E p d)"
  "fulfils E (fs_remove E p)"
  "fulfils E (page_pdf E p)"
  "fulfils E (browser_call E c)"
  "fulfils E (asciidoctor_convertFile E p)"
  unfolding fetchRepoContents_def downloadFile_def fs_ensureDir_def fs_outputFile_def
    fs_writeFile_def fs_remove_def page_pdf_def browser_call_def asciidoctor_convertFile_def
    axios_get_listing_def axios_get_def
  by (intro fulfils_try_catch fulfils_await fulfils_external fulfils_resolve fulfils_fs_effect)+

lemma fulfils_stage_assets: "fulfils E (stage_assets E)"
proof -
  have g: "fulfils E (getCodeFiles E)" "fulfils E (getImageFiles E)" "fulfils E (getChapterFiles E)"
    unfolding getCodeFiles_def getImageFiles_def getChapterFiles_def
    by (intro fulfils_await fulfils_functions fulfils_resolve)+
  have c: "fulfils E (createCodeFiles E files)" "fulfils E (createImageFiles E files)" for files
    unfolding createCodeFiles_def createImageFiles_def
    by (intro fulfils_await fulfils_Promise_all_map fulfils_functions fulfils_resolve
        fulfils_console_log; auto intro: fulfils_functions)+
  have a: "fulfils E (all3 (Inr x) (Inr y) (Inr z))" for x y and z :: "remote_file list"
    by (simp add: all3_def fulfils_resolve)
  show ?thesis
    unfolding stage_assets_def
    by (intro fulfils_await fulfils_launch fulfils_unread fulfils_console_log
        fulfils_functions g c a)
qed

lemma fulfils_saveAsPDF: "fulfils E (saveAsPDF E mergedContent)"
  unfolding saveAsPDF_def catch_log_def
  by (intro fulfils_await fulfils_console_log fulfils_functions fulfils_try_catch
      fulfils_Promise_all) (auto intro: fulfils_functions)

lemma fulfils_main_try: "fulfils E (main_try E)"
  unfolding main_try_def
  by (intro fulfils_await fulfils_stage_assets fulfils_mergeFiles fulfils_console_log
      fulfils_saveAsPDF)

lemma main_try_grows: "issues (main_try E) (\<lambda>c. True) (\<lambda>c. True)"
proof -
  have st: "issues (stage_assets E) (\<lambda>c. True) (\<lambda>c. True)"
    by (rule issues_weaken [OF stage_assets_calls]) simp_all
  have mg: "issues (mergeFiles E files) (\<lambda>c. True) (\<lambda>c. True)" for files
    by (rule issues_weaken [OF mergeFiles_calls]) simp_all
  have sv: "issues (saveAsPDF E m) (\<lambda>c. True) (\<lambda>c. True)" for m
    by (rule issues_weaken [OF saveAsPDF_calls]) simp_all
  show ?thesis
    unfolding main_try_def
    by (intro issues_await st mg sv issues_console_log)
qed

lemma main_fulfilled: "main_try E w = (Inr (), w') \<Longrightarrow> main E w = (Inr (), w')"
  by (simp add: main_def try_catch_def)

lemma main_calls_fs:
  assumes "main E w = (r, wb)"
  shows "\<exists>rt wt. main_try E w = (rt, wt) \<and> calls wb = calls wt \<and> fs wb = fs wt"
proof -
  obtain rt wt where "main_try E w = (rt, wt)" by (cases "main_try E w")
  with assms show ?thesis
    by (auto simp: main_def try_catch_def console_error_def split: sum.splits option.splits)
qed

lemma demo_env_all_fulfilled:
  "all_fulfilled (demo_env (\<lambda>k. Inr l) (\<lambda>k. Inr d) (\<lambda>k. Inr ())) n"
  by (simp add: all_fulfilled_def demo_env_def)

lemma any_calls:
  "issues (stage_assets E) (\<lambda>c. True) (\<lambda>c. True)"
  "issues (mergeFiles E files) (\<lambda>c. True) (\<lambda>c. True)"
  "issues (saveAsPDF E mergedContent) (\<lambda>c. True) (\<lambda>c. True)"
  by (rule issues_weaken [OF stage_assets_calls], simp_all,
      rule issues_weaken [OF mergeFiles_calls], simp_all,
      rule issues_weaken [OF saveAsPDF_calls], simp_all)

section \<open>The temporary directory\<close>

text \<open>
  C8. A run whose \<^verbatim>\<open>try\<close> block is fulfilled begins with the creation of the temporary
  directory and ends with the PDF written, the browser closed and the directory
  removed, so the directory does not exist when the run completes. A run that did not
  get the PDF written calls no removal at all, as no handler cleans up: when the
  directory was created, it still exists at the end of such a run.
\<close>

theorem C8_temporary_directory_brackets_the_run:
  "(main_try E w = (Inr (), w') \<longrightarrow>
      main E w = (Inr (), w')
      \<and> TEMP_DIR \<notin> fs w'
      \<and> (\<exists>mid. new_calls w w' =
            (FsEnsureDir TEMP_DIR, None) # mid
              @ [(PagePdf OUTPUT_FILE, None), (BrowserClose, None), (FsRemove TEMP_DIR, None)]))
   \<and> (main E w = (r, wb) \<and> (PagePdf OUTPUT_FILE, None) \<notin> set (new_calls w wb) \<longrightarrow>
      \<not> list_ex is_remove (new_calls w wb)
      \<and> ((FsEnsureDir TEMP_DIR, None) \<in> set (new_calls w wb) \<longrightarrow> TEMP_DIR \<in> fs wb))"
proof (intro conjI impI)
  assume h: "main_try E w = (Inr (), w')"
  then show "main E w = (Inr (), w')" by (rule main_fulfilled)
  from runsD [OF main_try_runs h] obtain cs cs' where
    cs: "calls w' = calls w @ cs" and no: "TEMP_DIR \<notin> fs w'"
    and tl: "cs = cs' @ [(PagePdf OUTPUT_FILE, None), (BrowserClose, None), (FsRemove TEMP_DIR, None)]"
    by (auto simp: cleanup_last_def)
  from no show "TEMP_DIR \<notin> fs w'" .
  from h obtain chapterFiles w1 y where st: "stage_assets E w = (Inr chapterFiles, w1)"
    and rest: "await (mergeFiles E chapterFiles) (\<lambda>mergedContent.
       await (console_log [Str (str ''Generating PDF...'')]) (\<lambda>_.
       await (saveAsPDF E mergedContent) (\<lambda>_.
       console_log [Str (str ''Process completed successfully!'')]))) w1 = (Inr y, w')"
    unfolding main_try_def by (auto simp: await_Inr)
  from stage_assets_first_call [OF st] obtain cs1 where
    c1: "calls w1 = calls w @ (FsEnsureDir TEMP_DIR, None) # cs1" by blast
  have "issues (await (mergeFiles E chapterFiles) (\<lambda>mergedContent.
       await (console_log [Str (str ''Generating PDF...'')]) (\<lambda>_.
       await (saveAsPDF E mergedContent) (\<lambda>_.
       console_log [Str (str ''Process completed successfully!'')])))) (\<lambda>c. True) (\<lambda>c. True)"
    by (intro issues_await any_calls issues_console_log)
  from issuesD1 [OF this rest] obtain cs3 where "calls w' = calls w1 @ cs3"
    by (auto simp: grows_def)
  with c1 have "calls w' = calls w @ (FsEnsureDir TEMP_DIR, None) # (cs1 @ cs3)" by simp
  then obtain cs2 where "calls w' = calls w @ (FsEnsureDir TEMP_DIR, None) # cs2" by blast
  with cs tl have "cs' @ [(PagePdf OUTPUT_FILE, None), (BrowserClose, None), (FsRemove TEMP_DIR, None)]
      = (FsEnsureDir TEMP_DIR, None) # cs2" by simp
  then obtain mid where "cs' = (FsEnsureDir TEMP_DIR, None) # mid"
    by (cases cs') auto
  with cs tl show "\<exists>mid. new_calls w w' =
            (FsEnsureDir TEMP_DIR, None) # mid
              @ [(PagePdf OUTPUT_FILE, None), (BrowserClose, None), (FsRemove TEMP_DIR, None)]"
    by (simp add: new_calls_def)
next
  assume h: "main E w = (r, wb) \<and> (PagePdf OUTPUT_FILE, None) \<notin> set (new_calls w wb)"
  from main_calls_fs [of E w r wb] h obtain rt wt where
    mt: "main_try E w = (rt, wt)" and same: "calls wb = calls wt" "fs wb = fs wt" by blast
  from same have nc: "new_calls w wb = new_calls w wt" by (simp add: new_calls_def)
  from runsD [OF main_try_runs mt] obtain cs where
    cs: "calls wt = calls w @ cs" and rm: "list_ex is_remove cs \<longrightarrow> (PagePdf OUTPUT_FILE, None) \<in> set cs"
    by (auto simp: cleanup_last_def)
  from cs have n: "new_calls w wt = cs" by (simp add: new_calls_def)
  with h nc rm show no: "\<not> list_ex is_remove (new_calls w wb)" by auto
  assume e: "(FsEnsureDir TEMP_DIR, None) \<in> set (new_calls w wb)"
  from issuesD1 [OF main_try_grows mt] cs
  have "list_all (\<lambda>c. \<not> is_remove c) cs \<longrightarrow> (\<forall>p. (FsEnsureDir p, None) \<in> set cs \<longrightarrow> p \<in> fs wt)"
    by (auto simp: grows_def)
  with no e nc n same show "TEMP_DIR \<in> fs wb"
    by (auto simp: list_all_iff list_ex_iff)
qed

theorem C8_witness:
  "(\<exists>w'. main_try (demo_env (\<lambda>k. Inr []) (\<lambda>k. Inr (Text [])) (\<lambda>k. Inr ())) empty_world
       = (Inr (), w') \<and> TEMP_DIR \<notin> fs w')
   \<and> TEMP_DIR \<in> fs (snd (main
        (demo_env (\<lambda>k. Inl (RemoteFetchError 7)) (\<lambda>k. Inr (Text [])) (\<lambda>k. Inr ())) empty_world))
   \<and> \<not> list_ex is_remove (new_calls empty_world (snd (main
        (demo_env (\<lambda>k. Inl (RemoteFetchError 7)) (\<lambda>k. Inr (Text [])) (\<lambda>k. Inr ())) empty_world)))"
proof -
  let ?E = "demo_env (\<lambda>k. Inr []) (\<lambda>k. Inr (Text [])) (\<lambda>k. Inr ())"
  let ?F = "demo_env (\<lambda>k. Inl (RemoteFetchError 7)) (\<lambda>k. Inr (Text [])) (\<lambda>k. Inr ())"
  from fulfilsD [OF fulfils_main_try demo_env_all_fulfilled]
  obtain w' where ok: "main_try ?E empty_world = (Inr (), w')"
    by (metis (full_types) old.unit.exhaust)
  with C8_temporary_directory_brackets_the_run [where E = ?E and w = empty_world and w' = w']
  have a: "\<exists>w'. main_try ?E empty_world = (Inr (), w') \<and> TEMP_DIR \<notin> fs w'"
    by blast
  have m: "main ?F empty_world = (fst (main ?F empty_world), snd (main ?F empty_world))"
    by simp
  have "calls (snd (main ?F empty_world)) =
      [(FsEnsureDir TEMP_DIR, None),
       (AxiosGet (API_URL @ str ''/code'') None, Some (RemoteFetchError 7))]"
    by (simp add: main_def try_catch_def rejected_listing_run console_error_def)
  then have c: "new_calls empty_world (snd (main ?F empty_world)) =
      [(FsEnsureDir TEMP_DIR, None),
       (AxiosGet (API_URL @ str ''/code'') None, Some (RemoteFetchError 7))]"
    by (simp add: new_calls_def empty_world_def)
  from C8_temporary_directory_brackets_the_run
    [where E = ?F and w = empty_world and r = "fst (main ?F empty_world)"
       and wb = "snd (main ?F empty_world)"] m c
  have "TEMP_DIR \<in> fs (snd (main ?F empty_world))
      \<and> \<not> list_ex is_remove (new_calls empty_world (snd (main ?F empty_world)))"
    by simp
  with a show ?thesis by blast
qed

section \<open>An empty chapter list\<close>

text \<open>
  C4. If the staging and listing are fulfilled with zero chapter entries, mergeFiles
  on the empty sequence answers the empty string without any request, and main goes
  on to the PDF stage with it: provided no later external call is rejected, the
  run is fulfilled, \<^verbatim>\<open>merged.adoc\<close> is written with the empty text and the PDF is
  produced. The program raises no error of its own on an empty chapter list.
\<close>

theorem C4_empty_chapter_list:
  assumes "stage_assets E w = (Inr [], w1)" "all_fulfilled E (length (calls w1))"
  shows "mergeFiles E [] w1 = (Inr [], w1)
     \<and> (\<exists>w'. main_try E w = (Inr (), w') \<and> main E w = (Inr (), w')
          \<and> (FsOutputFile (TEMP_DIR @ [str ''merged.adoc'']) (Text []), None)
               \<in> set (new_calls w1 w')
          \<and> (PagePdf OUTPUT_FILE, None) \<in> set (new_calls w1 w')
          \<and> OUTPUT_FILE \<in> fs w')"
proof -
  let ?w2 = "w1\<lparr>console := console w1 @ [Log [Str (str ''Generating PDF...'')]]\<rparr>"
  have mg: "mergeFiles E [] w1 = (Inr [], w1)"
    using mergeFiles_fulfilled [of "[]" E w1] by simp
  from assms(2) have "all_fulfilled E (length (calls ?w2))" by simp
  from fulfilsD [OF fulfils_saveAsPDF this]
  obtain w3 where sv: "saveAsPDF E [] ?w2 = (Inr (), w3)"
    by (metis (full_types) old.unit.exhaust)
  let ?w' = "w3\<lparr>console := console w3 @ [Log [Str (str ''Process completed successfully!'')]]\<rparr>"
  have mt: "main_try E w = (Inr (), ?w')"
    by (simp add: main_try_def await_def assms(1) mg console_log_def sv)
  from runsD [OF saveAsPDF_runs sv] obtain cs' where
    tl: "calls w3 = calls w1 @ cs' @ [(PagePdf OUTPUT_FILE, None), (BrowserClose, None),
        (FsRemove TEMP_DIR, None)]" and out: "OUTPUT_FILE \<in> fs w3"
    by (auto simp: cleanup_last_def)
  from saveAsPDF_first_call [OF sv] obtain cs where
    hd: "calls w3 = calls w1 @ (FsOutputFile (TEMP_DIR @ [str ''merged.adoc'']) (Text []), None) # cs"
    by auto
  from tl have "(PagePdf OUTPUT_FILE, None) \<in> set (new_calls w1 ?w')"
    by (simp add: new_calls_def)
  moreover from hd have "(FsOutputFile (TEMP_DIR @ [str ''merged.adoc'']) (Text []), None)
      \<in> set (new_calls w1 ?w')"
    by (simp add: new_calls_def)
  moreover from out have "OUTPUT_FILE \<in> fs ?w'" by simp
  ultimately show ?thesis
    using mg mt main_fulfilled [OF mt] by blast
qed

theorem C4_witness:
  "\<exists>w1 w'.
     stage_assets (demo_env (\<lambda>k. Inr []) (\<lambda>k. Inr (Text [])) (\<lambda>k. Inr ())) empty_world
       = (Inr [], w1)
     \<and> main (demo_env (\<lambda>k. Inr []) (\<lambda>k. Inr (Text [])) (\<lambda>k. Inr ())) empty_world = (Inr (), w')
     \<and> (FsOutputFile (TEMP_DIR @ [str ''merged.adoc'']) (Text []), None) \<in> set (new_calls w1 w')
     \<and> OUTPUT_FILE \<in> fs w'"
proof -
  let ?E = "demo_env (\<lambda>k. Inr []) (\<lambda>k. Inr (Text [])) (\<lambda>k. Inr ())"
  have "fst (stage_assets ?E empty_world) = Inr []"
    by (simp add: stage_assets_def await_def launch_def unread_def all3_def console_log_def
        fs_ensureDir_def fs_effect_fulfilled Promise_all_def resolve_def
        getCodeFiles_def getImageFiles_def getChapterFiles_def
        fetchRepoContents_fulfilled createCodeFiles_def createImageFiles_def
        demo_env_simps empty_world_def)
  then have st: "stage_assets ?E empty_world = (Inr [], snd (stage_assets ?E empty_world))"
    by (metis prod.collapse)
  from C4_empty_chapter_list [OF st demo_env_all_fulfilled] obtain w' where
    "main ?E empty_world = (Inr (), w')"
    "(FsOutputFile (TEMP_DIR @ [str ''merged.adoc'']) (Text []), None)
       \<in> set (new_calls (snd (stage_assets ?E empty_world)) w')"
    "OUTPUT_FILE \<in> fs w'"
    by blast
  with st show ?thesis
    by (intro exI [of _ "snd (stage_assets ?E empty_world)"] exI [of _ w'] conjI)
qed

end
